theory Spec2Isabelle
  imports Main "HOL-Library.AList" "HOL-Library.Sublist"
begin

section \<open>Python values, dictionaries and the object store\<close>

text \<open>
  The panel of \<^verbatim>\<open>propertieseditor.py\<close> reads static metadata tables that are ordinary
  Python dictionaries: a property descriptor is a dict whose \<^verbatim>\<open>"params"\<close> entry, whose
  \<^verbatim>\<open>"help"\<close> entry and whose per-class override entries may again be dicts. Dict objects
  are shared by reference, and \<^verbatim>\<open>update_editor\<close> assigns into one of them, so dict
  objects live in a store (a table from addresses to contents, read with \<open>map_of\<close>) and a
  value that is a dict is a reference into it. A dict keeps its insertion order, which the
  help lookup depends on: its content is an association list, and item assignment is
  \<open>AList.update\<close> (an existing key keeps its place, a new key goes to the end). A dict
  that only a local variable refers to (the copy of the descriptor, the merged descriptor,
  the \<^verbatim>\<open>{}\<close> of line 146) is kept as its content.
\<close>

datatype pyval = PNone | PBool bool | PInt int | PStr string | PRef nat

type_synonym pydict = "(string \<times> pyval) list"

type_synonym heap = "(nat \<times> pydict) list"

datatype error = KeyError | AttributeError | TypeError

definition deref :: "heap \<Rightarrow> pyval \<Rightarrow> pydict option" where
  "deref h v = (case v of PRef a \<Rightarrow> map_of h a | _ \<Rightarrow> None)"

text \<open>Python truth value testing (\<^verbatim>\<open>not value\<close>, \<^verbatim>\<open>and default\<close>).\<close>

fun truthy :: "heap \<Rightarrow> pyval \<Rightarrow> bool" where
  "truthy h PNone = False"
| "truthy h (PBool b) = b"
| "truthy h (PInt n) = (n \<noteq> 0)"
| "truthy h (PStr s) = (s \<noteq> [])"
| "truthy h (PRef a) = (case map_of h a of Some d \<Rightarrow> d \<noteq> [] | None \<Rightarrow> True)"

text \<open>\<^verbatim>\<open>dict(pdescr, **override)\<close>: a new dict with the items of \<^verbatim>\<open>pdescr\<close>, then
  updated with each item of the override in turn.\<close>

definition dict_merge :: "pydict \<Rightarrow> pydict \<Rightarrow> pydict" where
  "dict_merge d od = fold (\<lambda>(k, v). AList.update k v) od d"

text \<open>\<^verbatim>\<open>s.startswith(p)\<close>\<close>

fun startswith :: "string \<Rightarrow> string \<Rightarrow> bool" where
  "startswith s [] = True"
| "startswith [] (c # p) = False"
| "startswith (x # s) (c # p) = (x = c \<and> startswith s p)"

section \<open>External entities\<close>

text \<open>
  The widget descriptor is owned by the designer, not by the panel. The panel reads its
  class name, its identifier placeholder and its property getter
  (\<^verbatim>\<open>wdescr.widget_property(pname)\<close>), and calls its property setter
  (\<^verbatim>\<open>wdescr.widget_property(name, value)\<close>); a setter call is recorded in the log
  \<open>setter_calls\<close> of the world below, what the descriptor does with it is outside this file.
\<close>

record wdescr =
  classname :: string
  start_id :: pyval
  widget_property_get :: "string \<Rightarrow> pyval"

text \<open>
  The modules \<^verbatim>\<open>pygubudesigner.properties\<close> and \<^verbatim>\<open>pygubu.builder\<close> and the editor
  factory are not part of this file; they are parameters. A group table
  (\<^verbatim>\<open>REQUIRED_OPTIONS\<close>, \<^verbatim>\<open>TK_WIDGET_OPTIONS\<close>, \<^verbatim>\<open>CUSTOM_OPTIONS\<close>) maps a property name
  to its descriptor, a reference to a dict object of the store. \<open>CLASS_MAP\<close> maps a
  class name to the attributes of its builder class (\<^verbatim>\<open>CLASS_MAP[wclass].builder\<close>),
  read with \<^verbatim>\<open>getattr\<close>. \<open>named_id_editor wtype\<close> says whether
  \<^verbatim>\<open>create_editor(wtype, master)\<close> returns an instance of \<^verbatim>\<open>NamedIDPropertyEditor\<close>.
\<close>

record env =
  WIDGET_REQUIRED_OPTIONS :: "string list"
  REQUIRED_OPTIONS :: pydict
  WIDGET_STANDARD_OPTIONS :: "string list"
  TK_WIDGET_OPTIONS :: pydict
  WIDGET_SPECIFIC_OPTIONS :: "string list"
  WIDGET_CUSTOM_OPTIONS :: "string list"
  CUSTOM_OPTIONS :: pydict
  CLASS_MAP :: "string \<Rightarrow> (string \<Rightarrow> string list option) option"
  named_id_editor :: "pyval \<Rightarrow> bool"

section \<open>Widgets of the panel\<close>

text \<open>
  A label and an editor are toolkit objects; what the panel does to them is kept as
  their state: whether they are in the grid (\<^verbatim>\<open>grid()\<close> / \<^verbatim>\<open>grid_remove()\<close>), the
  tooltip text, the last \<^verbatim>\<open>parameters(**params)\<close> and the value of the editor (set by
  \<^verbatim>\<open>edit(value)\<close>, read by \<^verbatim>\<open>editor.value\<close>). \<open>editor_pname\<close> is the property name
  bound in the editor's \<^verbatim>\<open><<PropertyChanged>>\<close> callback. Geometry options, fonts,
  padding and logging are left out.
\<close>

record label =
  label_text :: string
  label_gridded :: bool
  tooltip_text :: pyval

record editor =
  editor_wtype :: pyval
  editor_named_id :: bool
  editor_pname :: string
  editor_gridded :: bool
  editor_params :: pydict
  editor_value :: pyval

text \<open>
  \<open>rows\<close> holds the label/editor pairs in the order of their creation; the property bag
  maps a key (group code followed by the property name) to the index of its pair, as the
  Python dict maps it to the two objects. \<open>priv_current\<close> is the attribute
  \<^verbatim>\<open>self._current\<close>; \<open>current\<close> is the attribute \<^verbatim>\<open>self.current\<close> (\<open>None\<close> while it does
  not exist, \<open>Some None\<close> when it holds Python's \<^verbatim>\<open>None\<close>).
\<close>

record world =
  heap :: heap
  headers :: "string list"
  rows :: "(label \<times> editor) list"
  propbag :: "(string \<times> nat) list"
  priv_current :: "wdescr option"
  current :: "wdescr option option"
  setter_calls :: "(wdescr \<times> string \<times> pyval) list"
  reposition_calls :: nat

text \<open>An exception leaves behind the state reached when it was raised.\<close>

datatype outcome = Ok world | Raised error world

fun after :: "outcome \<Rightarrow> world" where
  "after (Ok w) = w"
| "after (Raised e w) = w"

definition grid_row :: "nat \<Rightarrow> world \<Rightarrow> world" where
  "grid_row i w = w\<lparr>rows := (rows w)[i :=
     ((fst (rows w ! i))\<lparr>label_gridded := True\<rparr>, (snd (rows w ! i))\<lparr>editor_gridded := True\<rparr>)]\<rparr>"

definition grid_remove_row :: "nat \<Rightarrow> world \<Rightarrow> world" where
  "grid_remove_row i w = w\<lparr>rows := (rows w)[i :=
     ((fst (rows w ! i))\<lparr>label_gridded := False\<rparr>, (snd (rows w ! i))\<lparr>editor_gridded := False\<rparr>)]\<rparr>"

section \<open>Construction\<close>

text \<open>\<^verbatim>\<open>_create_editor\<close>: \<^verbatim>\<open>wdata.get("editor", None)\<close>, the factory (taken to return
  an editor for every kind), the callback binding.\<close>

definition create_editor :: "env \<Rightarrow> heap \<Rightarrow> string \<Rightarrow> pyval \<Rightarrow> error + editor" where
  "create_editor env h pname wdata =
     (case deref h wdata of
        None \<Rightarrow> Inl AttributeError
      | Some d \<Rightarrow>
          (let wtype = (case map_of d ''editor'' of None \<Rightarrow> PNone | Some t \<Rightarrow> t)
           in Inr \<lparr>editor_wtype = wtype, editor_named_id = named_id_editor env wtype,
                   editor_pname = pname, editor_gridded = False, editor_params = [],
                   editor_value = PNone\<rparr>))"

text \<open>The inner loop of \<^verbatim>\<open>_create_properties\<close> (\<^verbatim>\<open>for name in plist\<close>).\<close>

fun create_names :: "env \<Rightarrow> string \<Rightarrow> pydict \<Rightarrow> string list \<Rightarrow> world \<Rightarrow> error + world" where
  "create_names env gcode propdescr [] w = Inr w"
| "create_names env gcode propdescr (name # plist) w =
     (case map_of propdescr name of
        None \<Rightarrow> Inl KeyError
      | Some kwdata \<Rightarrow>
          (case create_editor env (heap w) name kwdata of
             Inl e \<Rightarrow> Inl e
           | Inr widget \<Rightarrow>
               create_names env gcode propdescr plist
                 (w\<lparr>rows := rows w @
                      [(\<lparr>label_text = name @ '':'', label_gridded = True, tooltip_text = PStr ''?''\<rparr>,
                        widget\<lparr>editor_gridded := True\<rparr>)],
                    propbag := AList.update (gcode @ name) (length (rows w)) (propbag w)\<rparr>)))"

text \<open>The outer loop (\<^verbatim>\<open>for gcode, gname, plist, propdescr in groups\<close>).\<close>

fun create_groups :: "env \<Rightarrow> (string \<times> string \<times> string list \<times> pydict) list \<Rightarrow> world \<Rightarrow> error + world" where
  "create_groups env [] w = Inr w"
| "create_groups env ((gcode, gname, plist, propdescr) # gs) w =
     (case create_names env gcode propdescr plist (w\<lparr>headers := headers w @ [gname]\<rparr>) of
        Inl e \<Rightarrow> Inl e
      | Inr w' \<Rightarrow> create_groups env gs w')"

definition create_properties :: "env \<Rightarrow> world \<Rightarrow> error + world" where
  "create_properties env w =
     create_groups env
       [(''00'', ''Required'', WIDGET_REQUIRED_OPTIONS env, REQUIRED_OPTIONS env),
        (''01'', ''Standard'', WIDGET_STANDARD_OPTIONS env, TK_WIDGET_OPTIONS env),
        (''02'', ''Specific'', WIDGET_SPECIFIC_OPTIONS env, TK_WIDGET_OPTIONS env),
        (''03'', ''Custom'', WIDGET_CUSTOM_OPTIONS env, CUSTOM_OPTIONS env)]
       w"

section \<open>hide\_all\<close>

definition hide_all :: "world \<Rightarrow> world" where
  "hide_all w = fold (\<lambda>(_, i). grid_remove_row i) (propbag w) (w\<lparr>current := Some None\<rparr>)"

text \<open>\<^verbatim>\<open>__init__\<close>; the style handler it starts is another module's object. If it raises,
  no panel exists.\<close>

definition PropertiesEditor_init :: "env \<Rightarrow> heap \<Rightarrow> error + world" where
  "PropertiesEditor_init env h =
     (case create_properties env
             \<lparr>heap = h, headers = [], rows = [], propbag = [], priv_current = None,
              current = None, setter_calls = [], reposition_calls = 0\<rparr> of
        Inl e \<Rightarrow> Inl e
      | Inr w \<Rightarrow> Inr (hide_all w))"

section \<open>The change callback\<close>

text \<open>\<^verbatim>\<open>self._current.widget_property(name, editor.value)\<close>; with \<^verbatim>\<open>_current\<close> still
  \<^verbatim>\<open>None\<close> the attribute lookup raises.\<close>

definition on_property_changed :: "string \<Rightarrow> editor \<Rightarrow> world \<Rightarrow> outcome" where
  "on_property_changed name editor w =
     (case priv_current w of
        None \<Rightarrow> Raised AttributeError w
      | Some cur \<Rightarrow> Ok (w\<lparr>setter_calls := setter_calls w @ [(cur, name, editor_value editor)]\<rparr>))"

text \<open>The closure \<^verbatim>\<open>on_change_cb\<close> made for the editor of row \<open>i\<close>.\<close>

definition on_change_cb :: "nat \<Rightarrow> world \<Rightarrow> outcome" where
  "on_change_cb i w =
     on_property_changed (editor_pname (snd (rows w ! i))) (snd (rows w ! i)) w"

section \<open>update\_editor\<close>

text \<open>Lines 138 to 141: the default mode of the generic descriptor.\<close>

definition default_mode_of :: "heap \<Rightarrow> pydict \<Rightarrow> error + pyval" where
  "default_mode_of h pdescr =
     (case map_of pdescr ''params'' of
        None \<Rightarrow> Inr PNone
      | Some pv \<Rightarrow>
          (case deref h pv of
             None \<Rightarrow> Inl AttributeError
           | Some params \<Rightarrow> Inr (case map_of params ''mode'' of None \<Rightarrow> PNone | Some m \<Rightarrow> m)))"

text \<open>Lines 143 and 144: the parameters for a specific class.\<close>

definition class_merge :: "heap \<Rightarrow> string \<Rightarrow> pydict \<Rightarrow> error + pydict" where
  "class_merge h cname pdescr =
     (case map_of pdescr cname of
        None \<Rightarrow> Inr pdescr
      | Some ov \<Rightarrow>
          (case deref h ov of
             None \<Rightarrow> Inl TypeError
           | Some od \<Rightarrow> Inr (dict_merge pdescr od)))"

text \<open>
  Line 146, \<^verbatim>\<open>params = pdescr.get("params", {})\<close>. The result is the dict object the
  descriptor refers to (its address and its content) or a new empty dict that nothing
  else refers to (no address). A value that is not a dict makes every later use of
  \<^verbatim>\<open>params\<close> raise \<^verbatim>\<open>TypeError\<close> (the \<^verbatim>\<open>in\<close> test or the item assignment or the
  \<^verbatim>\<open>**params\<close> call) before anything has been changed.
\<close>

definition get_params :: "heap \<Rightarrow> pydict \<Rightarrow> error + (nat option \<times> pydict)" where
  "get_params h pdescr =
     (case map_of pdescr ''params'' of
        None \<Rightarrow> Inr (None, [])
      | Some pv \<Rightarrow>
          (case pv of
             PRef p \<Rightarrow> (case map_of h p of Some d \<Rightarrow> Inr (Some p, d) | None \<Rightarrow> Inl TypeError)
           | _ \<Rightarrow> Inl TypeError))"

text \<open>\<^verbatim>\<open>params[k] = v\<close>: the object is changed in place, so the store changes with it
  when the object is one of the store's.\<close>

definition params_setitem ::
  "string \<Rightarrow> pyval \<Rightarrow> (nat option \<times> pydict) \<times> heap \<Rightarrow> (nat option \<times> pydict) \<times> heap" where
  "params_setitem k v ph =
     (case ph of ((r, d), h) \<Rightarrow>
        (let d' = AList.update k v d
         in ((r, d'), (case r of None \<Rightarrow> h | Some p \<Rightarrow> AList.update p d' h))))"

text \<open>Lines 160 to 170: the loop over \<^verbatim>\<open>help.items()\<close>.\<close>

fun help_items :: "string \<Rightarrow> pydict \<Rightarrow> pyval" where
  "help_items cname [] = PStr ''''"
| "help_items cname ((k, v) # items) =
     (if startswith cname k then v else help_items cname items)"

definition resolve_help :: "heap \<Rightarrow> string \<Rightarrow> pydict \<Rightarrow> pyval" where
  "resolve_help h cname pdescr =
     (case map_of pdescr ''help'' of
        None \<Rightarrow> PNone
      | Some hv \<Rightarrow> (case deref h hv of Some items \<Rightarrow> help_items cname items | None \<Rightarrow> hv))"

text \<open>Lines 173 to 178: the value to display.\<close>

definition resolve_value :: "heap \<Rightarrow> pydict \<Rightarrow> pyval \<Rightarrow> pyval" where
  "resolve_value h pdescr value =
     (let default = (case map_of pdescr ''default'' of None \<Rightarrow> PStr '''' | Some d \<Rightarrow> d)
      in if \<not> truthy h value \<and> truthy h default then default else value)"

definition update_editor :: "nat \<Rightarrow> wdescr \<Rightarrow> string \<Rightarrow> pyval \<Rightarrow> world \<Rightarrow> outcome" where
  "update_editor i wd pname propdescr w =
     (case deref (heap w) propdescr of
        None \<Rightarrow> Raised AttributeError w
      | Some pdescr0 \<Rightarrow>
     (case default_mode_of (heap w) pdescr0 of
        Inl e \<Rightarrow> Raised e w
      | Inr default_mode \<Rightarrow>
     (case class_merge (heap w) (classname wd) pdescr0 of
        Inl e \<Rightarrow> Raised e w
      | Inr pdescr \<Rightarrow>
     (case get_params (heap w) pdescr of
        Inl e \<Rightarrow> Raised e w
      | Inr params0 \<Rightarrow>
          (let ph1 = (if default_mode \<noteq> PNone \<and> map_of (snd params0) ''mode'' = None
                      then params_setitem ''mode'' default_mode (params0, heap w)
                      else (params0, heap w));
               ph2 = (if pname = ''id'' \<and> editor_named_id (snd (rows w ! i))
                      then params_setitem ''placeholder'' (start_id wd) ph1
                      else ph1);
               params = snd (fst ph2);
               h2 = snd ph2;
               help = resolve_help h2 (classname wd) pdescr;
               value = resolve_value h2 pdescr (widget_property_get wd pname)
           in Ok (w\<lparr>heap := h2,
                    rows := (rows w)[i :=
                      ((fst (rows w ! i))\<lparr>tooltip_text := help\<rparr>,
                       (snd (rows w ! i))\<lparr>editor_params := params, editor_value := value\<rparr>)]\<rparr>))))))"

section \<open>edit\<close>

text \<open>\<^verbatim>\<open>gcode == "00" or name in getattr(class_descr, attrname)\<close>\<close>

definition is_shown ::
  "(string \<Rightarrow> string list option) \<Rightarrow> string \<Rightarrow> string option \<Rightarrow> string \<Rightarrow> error + bool" where
  "is_shown class_descr gcode attrname name =
     (if gcode = ''00'' then Inr True
      else (case attrname of
              None \<Rightarrow> Inl TypeError
            | Some a \<Rightarrow>
                (case class_descr a of
                   None \<Rightarrow> Inl AttributeError
                 | Some names \<Rightarrow> Inr (name \<in> set names))))"

text \<open>The inner loop of \<^verbatim>\<open>edit\<close> (\<^verbatim>\<open>for name in proplist\<close>).\<close>

fun edit_names ::
  "(string \<Rightarrow> string list option) \<Rightarrow> wdescr \<Rightarrow> string \<Rightarrow> string option \<Rightarrow> pydict \<Rightarrow>
   string list \<Rightarrow> world \<Rightarrow> outcome" where
  "edit_names cd wd gcode attrname gproperties [] w = Ok w"
| "edit_names cd wd gcode attrname gproperties (name # proplist) w =
     (case map_of gproperties name of
        None \<Rightarrow> Raised KeyError w
      | Some propdescr \<Rightarrow>
     (case map_of (propbag w) (gcode @ name) of
        None \<Rightarrow> Raised KeyError w
      | Some i \<Rightarrow>
     (case is_shown cd gcode attrname name of
        Inl e \<Rightarrow> Raised e w
      | Inr shown \<Rightarrow>
          if shown
          then (case update_editor i wd name propdescr w of
                  Raised e w' \<Rightarrow> Raised e w'
                | Ok w' \<Rightarrow> edit_names cd wd gcode attrname gproperties proplist (grid_row i w'))
          else edit_names cd wd gcode attrname gproperties proplist (grid_remove_row i w))))"

text \<open>The outer loop (\<^verbatim>\<open>for gcode, attrname, proplist, gproperties in groups\<close>).\<close>

fun edit_groups ::
  "(string \<Rightarrow> string list option) \<Rightarrow> wdescr \<Rightarrow>
   (string \<times> string option \<times> string list \<times> pydict) list \<Rightarrow> world \<Rightarrow> outcome" where
  "edit_groups cd wd [] w = Ok w"
| "edit_groups cd wd ((gcode, attrname, proplist, gproperties) # gs) w =
     (case edit_names cd wd gcode attrname gproperties proplist w of
        Raised e w' \<Rightarrow> Raised e w'
      | Ok w' \<Rightarrow> edit_groups cd wd gs w')"

definition groups :: "env \<Rightarrow> (string \<times> string option \<times> string list \<times> pydict) list" where
  "groups env =
     [(''00'', None, WIDGET_REQUIRED_OPTIONS env, REQUIRED_OPTIONS env),
      (''01'', Some ''OPTIONS_STANDARD'', WIDGET_STANDARD_OPTIONS env, TK_WIDGET_OPTIONS env),
      (''02'', Some ''OPTIONS_SPECIFIC'', WIDGET_SPECIFIC_OPTIONS env, TK_WIDGET_OPTIONS env),
      (''03'', Some ''OPTIONS_CUSTOM'', WIDGET_CUSTOM_OPTIONS env, CUSTOM_OPTIONS env)]"

definition edit :: "env \<Rightarrow> wdescr \<Rightarrow> world \<Rightarrow> outcome" where
  "edit env wd w =
     (let w1 = w\<lparr>priv_current := Some wd\<rparr>
      in case CLASS_MAP env (classname wd) of
           None \<Rightarrow> Raised KeyError w1
         | Some class_descr \<Rightarrow>
             (case edit_groups class_descr wd (groups env) w1 of
                Raised e w' \<Rightarrow> Raised e w'
              | Ok w' \<Rightarrow> Ok (w'\<lparr>reposition_calls := Suc (reposition_calls w')\<rparr>)))"

section \<open>Runs of the panel\<close>

text \<open>
  What can happen to a constructed panel: the designer calls \<^verbatim>\<open>edit\<close>, \<^verbatim>\<open>hide_all\<close> or
  \<^verbatim>\<open>update_editor\<close>, the user changes the value shown by an editor, an editor fires
  \<^verbatim>\<open><<PropertyChanged>>\<close>. An operation that names a row that does not exist cannot
  happen and does nothing. The event loop reports an exception and goes on with the
  state it left.
\<close>

datatype op =
    Edit wdescr
  | HideAll
  | UpdateEditor nat wdescr string pyval
  | UserInput nat pyval
  | PropertyChanged nat

fun exec :: "env \<Rightarrow> op \<Rightarrow> world \<Rightarrow> outcome" where
  "exec env (Edit wd) w = edit env wd w"
| "exec env HideAll w = Ok (hide_all w)"
| "exec env (UpdateEditor i wd pname propdescr) w =
     (if i < length (rows w) then update_editor i wd pname propdescr w else Ok w)"
| "exec env (UserInput i v) w =
     Ok (w\<lparr>rows := (rows w)[i := (fst (rows w ! i), (snd (rows w ! i))\<lparr>editor_value := v\<rparr>)]\<rparr>)"
| "exec env (PropertyChanged i) w =
     (if i < length (rows w) then on_change_cb i w else Ok w)"

definition run :: "env \<Rightarrow> op list \<Rightarrow> world \<Rightarrow> world" where
  "run env ops w = fold (\<lambda>op w'. after (exec env op w')) ops w"

section \<open>Observations and invariants\<close>

text \<open>Whether the label and the editor of row \<open>j\<close> are in the grid.\<close>

definition gridded :: "world \<Rightarrow> nat \<Rightarrow> bool \<times> bool" where
  "gridded w j = (label_gridded (fst (rows w ! j)), editor_gridded (snd (rows w ! j)))"

text \<open>What is fixed when a pair is created: the label's text, the kind and class of the
  editor and the property name bound in its callback.\<close>

definition row_identity :: "label \<times> editor \<Rightarrow> string \<times> pyval \<times> bool \<times> string" where
  "row_identity r =
     (label_text (fst r), editor_wtype (snd r), editor_named_id (snd r), editor_pname (snd r))"

text \<open>The widgets that exist and the property bag that refers to them.\<close>

definition skeleton ::
  "world \<Rightarrow> (string \<times> nat) list \<times> (string \<times> pyval \<times> bool \<times> string) list \<times> string list" where
  "skeleton w = (propbag w, map row_identity (rows w), headers w)"

text \<open>The property bag is a dict (no key twice); every key refers to an existing pair
  whose editor is bound to the key's property name; no pair is registered under two keys.\<close>

definition bag_inv :: "world \<Rightarrow> bool" where
  "bag_inv w \<longleftrightarrow>
     distinct (map fst (propbag w)) \<and>
     (\<forall>k i. map_of (propbag w) k = Some i \<longrightarrow>
        i < length (rows w) \<and> editor_pname (snd (rows w ! i)) = drop 2 k) \<and>
     (\<forall>k k' i. map_of (propbag w) k = Some i \<longrightarrow> map_of (propbag w) k' = Some i \<longrightarrow> k = k')"

definition group_keys :: "env \<Rightarrow> string set" where
  "group_keys env =
     (\<lambda>n. ''00'' @ n) ` set (WIDGET_REQUIRED_OPTIONS env) \<union>
     (\<lambda>n. ''01'' @ n) ` set (WIDGET_STANDARD_OPTIONS env) \<union>
     (\<lambda>n. ''02'' @ n) ` set (WIDGET_SPECIFIC_OPTIONS env) \<union>
     (\<lambda>n. ''03'' @ n) ` set (WIDGET_CUSTOM_OPTIONS env)"

definition panel_inv :: "env \<Rightarrow> world \<Rightarrow> bool" where
  "panel_inv env w \<longleftrightarrow> bag_inv w \<and> fst ` set (propbag w) = group_keys env"
text \<open>The content of \<^verbatim>\<open>params\<close> when it is passed to the editor: the dict \<open>d0\<close> found
  at line 146 after the two conditional assignments (\<open>m\<close> is the default mode).\<close>

definition params_after :: "pyval \<Rightarrow> bool \<Rightarrow> pyval \<Rightarrow> pydict \<Rightarrow> pydict" where
  "params_after m placeholder sid d0 =
     (let d1 = (if m \<noteq> PNone \<and> map_of d0 ''mode'' = None then AList.update ''mode'' m d0 else d0)
      in if placeholder then AList.update ''placeholder'' sid d1 else d1)"



text \<open>
  Well-formed tables, for a class name: every listed property has a descriptor that is a
  dict; a \<^verbatim>\<open>"params"\<close> entry is a dict; an entry under the class name is a dict whose
  \<^verbatim>\<open>"params"\<close> entry, if any, is a dict. The class name is not one of the two keys that
  \<^verbatim>\<open>update_editor\<close> assigns. A well-formed builder class has the three option lists.
\<close>

definition descr_ok :: "heap \<Rightarrow> string \<Rightarrow> pyval \<Rightarrow> bool" where
  "descr_ok h cname pdv \<longleftrightarrow>
     (\<exists>pd. deref h pdv = Some pd \<and>
        (\<forall>v. map_of pd ''params'' = Some v \<longrightarrow> deref h v \<noteq> None) \<and>
        (\<forall>ov. map_of pd cname = Some ov \<longrightarrow>
           (\<exists>od. deref h ov = Some od \<and> distinct (map fst od) \<and>
              (\<forall>v. map_of od ''params'' = Some v \<longrightarrow> deref h v \<noteq> None))))"

definition tables_ok :: "env \<Rightarrow> heap \<Rightarrow> string \<Rightarrow> bool" where
  "tables_ok env h cname \<longleftrightarrow>
     cname \<noteq> ''mode'' \<and> cname \<noteq> ''placeholder'' \<and>
     (\<forall>(g, a, names, gp)\<in>set (groups env). \<forall>name\<in>set names.
        \<exists>pdv. map_of gp name = Some pdv \<and> descr_ok h cname pdv)"

definition class_ok :: "(string \<Rightarrow> string list option) \<Rightarrow> bool" where
  "class_ok cd \<longleftrightarrow>
     cd ''OPTIONS_STANDARD'' \<noteq> None \<and> cd ''OPTIONS_SPECIFIC'' \<noteq> None \<and>
     cd ''OPTIONS_CUSTOM'' \<noteq> None"

text \<open>The store keeps its objects; a dict stays a dict without repeated keys and changes
  at most under the keys \<^verbatim>\<open>"mode"\<close> and \<^verbatim>\<open>"placeholder"\<close>.\<close>

definition same_shape :: "heap \<Rightarrow> heap \<Rightarrow> bool" where
  "same_shape h h' \<longleftrightarrow>
     (\<forall>a. (map_of h a = None \<longrightarrow> map_of h' a = None) \<and>
          (\<forall>d. map_of h a = Some d \<longrightarrow>
             (\<exists>d'. map_of h' a = Some d' \<and>
                (distinct (map fst d) \<longrightarrow> distinct (map fst d')) \<and>
                (\<forall>k. k \<noteq> ''mode'' \<longrightarrow> k \<noteq> ''placeholder'' \<longrightarrow> map_of d' k = map_of d k))))"

text \<open>
  What the specification says \<^verbatim>\<open>edit\<close> shows for a class with builder attributes \<open>cd\<close>:
  every required property, and a standard, specific or custom property when its name is
  in the list the class declares for that group.
\<close>

definition declared :: "(string \<Rightarrow> string list option) \<Rightarrow> string \<Rightarrow> string \<Rightarrow> bool" where
  "declared cd attr n \<longleftrightarrow> (case cd attr of Some names \<Rightarrow> n \<in> set names | None \<Rightarrow> False)"

definition shown_keys :: "env \<Rightarrow> (string \<Rightarrow> string list option) \<Rightarrow> string set" where
  "shown_keys env cd =
     (\<lambda>n. ''00'' @ n) ` set (WIDGET_REQUIRED_OPTIONS env) \<union>
     (\<lambda>n. ''01'' @ n) ` set (filter (declared cd ''OPTIONS_STANDARD'') (WIDGET_STANDARD_OPTIONS env)) \<union>
     (\<lambda>n. ''02'' @ n) ` set (filter (declared cd ''OPTIONS_SPECIFIC'') (WIDGET_SPECIFIC_OPTIONS env)) \<union>
     (\<lambda>n. ''03'' @ n) ` set (filter (declared cd ''OPTIONS_CUSTOM'') (WIDGET_CUSTOM_OPTIONS env))"

section \<open>A small instance of the tables\<close>

text \<open>
  Four properties: \<^verbatim>\<open>class\<close> and \<^verbatim>\<open>id\<close> (required), \<^verbatim>\<open>text\<close> (standard) and
  \<^verbatim>\<open>width\<close> (specific). The descriptor of \<^verbatim>\<open>text\<close> has a default, a help mapping
  keyed by class-name prefixes and an override for the class \<^verbatim>\<open>ttk.Label\<close> whose
  parameters give no mode. Two classes are registered.
\<close>

definition ex_heap :: heap where
  "ex_heap =
     [(0, [(''editor'', PStr ''fixedentry''), (''params'', PRef 1), (''help'', PStr ''Widget class name'')]),
      (1, [(''state'', PStr ''readonly'')]),
      (2, [(''editor'', PStr ''namedid''), (''params'', PRef 3), (''help'', PStr ''Widget identifier'')]),
      (3, [(''mode'', PStr ''namedid'')]),
      (4, [(''editor'', PStr ''dynamic''), (''params'', PRef 5), (''help'', PRef 6),
           (''default'', PStr ''hello''), (''ttk.Label'', PRef 7)]),
      (5, [(''mode'', PStr ''text'')]),
      (6, [(''tk.'', PStr ''tk help''), (''ttk.'', PStr ''ttk help''), (''ttk.Label'', PStr ''label help'')]),
      (7, [(''params'', PRef 8)]),
      (8, [(''height'', PInt 3)]),
      (9, [(''editor'', PStr ''naturalnumber'')])]"

definition ex_env :: env where
  "ex_env =
     \<lparr>WIDGET_REQUIRED_OPTIONS = [''class'', ''id''],
      REQUIRED_OPTIONS = [(''class'', PRef 0), (''id'', PRef 2)],
      WIDGET_STANDARD_OPTIONS = [''text''],
      TK_WIDGET_OPTIONS = [(''text'', PRef 4), (''width'', PRef 9)],
      WIDGET_SPECIFIC_OPTIONS = [''width''],
      WIDGET_CUSTOM_OPTIONS = [],
      CUSTOM_OPTIONS = [],
      CLASS_MAP = map_of
        [(''ttk.Label'', map_of [(''OPTIONS_STANDARD'', [''text'']), (''OPTIONS_SPECIFIC'', []),
                                 (''OPTIONS_CUSTOM'', [])]),
         (''ttk.Frame'', map_of [(''OPTIONS_STANDARD'', []), (''OPTIONS_SPECIFIC'', [''width'']),
                                 (''OPTIONS_CUSTOM'', [])])],
      named_id_editor = (\<lambda>t. t = PStr ''namedid'')\<rparr>"

definition ex_label :: wdescr where
  "ex_label = \<lparr>classname = ''ttk.Label'', start_id = PStr ''label1'',
               widget_property_get = (\<lambda>_. PStr '''')(''class'' := PStr ''ttk.Label'', ''id'' := PStr ''label1'')\<rparr>"

definition ex_frame :: wdescr where
  "ex_frame = \<lparr>classname = ''ttk.Frame'', start_id = PStr ''frame1'',
               widget_property_get = (\<lambda>_. PStr '''')(''class'' := PStr ''ttk.Frame'', ''width'' := PStr ''200'')\<rparr>"

text \<open>The panel constructed over these tables: four pairs, all hidden.\<close>

definition ex_w0 :: world where
  "ex_w0 =
     \<lparr>heap = ex_heap,
      headers = [''Required'', ''Standard'', ''Specific'', ''Custom''],
      rows =
        [(\<lparr>label_text = ''class:'', label_gridded = False, tooltip_text = PStr ''?''\<rparr>,
          \<lparr>editor_wtype = PStr ''fixedentry'', editor_named_id = False, editor_pname = ''class'',
             editor_gridded = False, editor_params = [], editor_value = PNone\<rparr>),
         (\<lparr>label_text = ''id:'', label_gridded = False, tooltip_text = PStr ''?''\<rparr>,
          \<lparr>editor_wtype = PStr ''namedid'', editor_named_id = True, editor_pname = ''id'',
             editor_gridded = False, editor_params = [], editor_value = PNone\<rparr>),
         (\<lparr>label_text = ''text:'', label_gridded = False, tooltip_text = PStr ''?''\<rparr>,
          \<lparr>editor_wtype = PStr ''dynamic'', editor_named_id = False, editor_pname = ''text'',
             editor_gridded = False, editor_params = [], editor_value = PNone\<rparr>),
         (\<lparr>label_text = ''width:'', label_gridded = False, tooltip_text = PStr ''?''\<rparr>,
          \<lparr>editor_wtype = PStr ''naturalnumber'', editor_named_id = False, editor_pname = ''width'',
             editor_gridded = False, editor_params = [], editor_value = PNone\<rparr>)],
      propbag = [(''00class'', 0), (''00id'', 1), (''01text'', 2), (''02width'', 3)],
      priv_current = None,
      current = Some None,
      setter_calls = [],
      reposition_calls = 0\<rparr>"

text \<open>The panel after \<^verbatim>\<open>edit\<close> of the label: \<^verbatim>\<open>width\<close> stays hidden; the dicts at 3 and 8 have grown.\<close>

definition ex_w1 :: world where
  "ex_w1 =
     \<lparr>heap =
        [(0, [(''editor'', PStr ''fixedentry''), (''params'', PRef 1), (''help'', PStr ''Widget class name'')]),
         (1, [(''state'', PStr ''readonly'')]),
         (2, [(''editor'', PStr ''namedid''), (''params'', PRef 3), (''help'', PStr ''Widget identifier'')]),
         (3, [(''mode'', PStr ''namedid''), (''placeholder'', PStr ''label1'')]),
         (4, [(''editor'', PStr ''dynamic''), (''params'', PRef 5), (''help'', PRef 6),
              (''default'', PStr ''hello''), (''ttk.Label'', PRef 7)]),
         (5, [(''mode'', PStr ''text'')]),
         (6, [(''tk.'', PStr ''tk help''), (''ttk.'', PStr ''ttk help''), (''ttk.Label'', PStr ''label help'')]),
         (7, [(''params'', PRef 8)]),
         (8, [(''height'', PInt 3), (''mode'', PStr ''text'')]),
         (9, [(''editor'', PStr ''naturalnumber'')])],
      headers = [''Required'', ''Standard'', ''Specific'', ''Custom''],
      rows =
        [(\<lparr>label_text = ''class:'', label_gridded = True, tooltip_text = PStr ''Widget class name''\<rparr>,
          \<lparr>editor_wtype = PStr ''fixedentry'', editor_named_id = False, editor_pname = ''class'',
             editor_gridded = True, editor_params = [(''state'', PStr ''readonly'')],
             editor_value = PStr ''ttk.Label''\<rparr>),
         (\<lparr>label_text = ''id:'', label_gridded = True, tooltip_text = PStr ''Widget identifier''\<rparr>,
          \<lparr>editor_wtype = PStr ''namedid'', editor_named_id = True, editor_pname = ''id'',
             editor_gridded = True, editor_params = [(''mode'', PStr ''namedid''), (''placeholder'', PStr ''label1'')],
             editor_value = PStr ''label1''\<rparr>),
         (\<lparr>label_text = ''text:'', label_gridded = True, tooltip_text = PStr ''ttk help''\<rparr>,
          \<lparr>editor_wtype = PStr ''dynamic'', editor_named_id = False, editor_pname = ''text'',
             editor_gridded = True, editor_params = [(''height'', PInt 3), (''mode'', PStr ''text'')],
             editor_value = PStr ''hello''\<rparr>),
         (\<lparr>label_text = ''width:'', label_gridded = False, tooltip_text = PStr ''?''\<rparr>,
          \<lparr>editor_wtype = PStr ''naturalnumber'', editor_named_id = False, editor_pname = ''width'',
             editor_gridded = False, editor_params = [],
             editor_value = PNone\<rparr>)],
      propbag = [(''00class'', 0), (''00id'', 1), (''01text'', 2), (''02width'', 3)],
      priv_current = Some ex_label,
      current = Some None,
      setter_calls = [],
      reposition_calls = 1\<rparr>"

text \<open>Then the user types into the editor of \<^verbatim>\<open>text\<close>.\<close>

definition ex_w2 :: world where
  "ex_w2 =
     \<lparr>heap =
        [(0, [(''editor'', PStr ''fixedentry''), (''params'', PRef 1), (''help'', PStr ''Widget class name'')]),
         (1, [(''state'', PStr ''readonly'')]),
         (2, [(''editor'', PStr ''namedid''), (''params'', PRef 3), (''help'', PStr ''Widget identifier'')]),
         (3, [(''mode'', PStr ''namedid''), (''placeholder'', PStr ''label1'')]),
         (4, [(''editor'', PStr ''dynamic''), (''params'', PRef 5), (''help'', PRef 6),
              (''default'', PStr ''hello''), (''ttk.Label'', PRef 7)]),
         (5, [(''mode'', PStr ''text'')]),
         (6, [(''tk.'', PStr ''tk help''), (''ttk.'', PStr ''ttk help''), (''ttk.Label'', PStr ''label help'')]),
         (7, [(''params'', PRef 8)]),
         (8, [(''height'', PInt 3), (''mode'', PStr ''text'')]),
         (9, [(''editor'', PStr ''naturalnumber'')])],
      headers = [''Required'', ''Standard'', ''Specific'', ''Custom''],
      rows =
        [(\<lparr>label_text = ''class:'', label_gridded = True, tooltip_text = PStr ''Widget class name''\<rparr>,
          \<lparr>editor_wtype = PStr ''fixedentry'', editor_named_id = False, editor_pname = ''class'',
             editor_gridded = True, editor_params = [(''state'', PStr ''readonly'')],
             editor_value = PStr ''ttk.Label''\<rparr>),
         (\<lparr>label_text = ''id:'', label_gridded = True, tooltip_text = PStr ''Widget identifier''\<rparr>,
          \<lparr>editor_wtype = PStr ''namedid'', editor_named_id = True, editor_pname = ''id'',
             editor_gridded = True, editor_params = [(''mode'', PStr ''namedid''), (''placeholder'', PStr ''label1'')],
             editor_value = PStr ''label1''\<rparr>),
         (\<lparr>label_text = ''text:'', label_gridded = True, tooltip_text = PStr ''ttk help''\<rparr>,
          \<lparr>editor_wtype = PStr ''dynamic'', editor_named_id = False, editor_pname = ''text'',
             editor_gridded = True, editor_params = [(''height'', PInt 3), (''mode'', PStr ''text'')],
             editor_value = PStr ''new text''\<rparr>),
         (\<lparr>label_text = ''width:'', label_gridded = False, tooltip_text = PStr ''?''\<rparr>,
          \<lparr>editor_wtype = PStr ''naturalnumber'', editor_named_id = False, editor_pname = ''width'',
             editor_gridded = False, editor_params = [],
             editor_value = PNone\<rparr>)],
      propbag = [(''00class'', 0), (''00id'', 1), (''01text'', 2), (''02width'', 3)],
      priv_current = Some ex_label,
      current = Some None,
      setter_calls = [],
      reposition_calls = 1\<rparr>"

text \<open>The panel after \<^verbatim>\<open>edit\<close> of the label and then of the frame.\<close>

definition ex_w3 :: world where
  "ex_w3 =
     \<lparr>heap =
        [(0, [(''editor'', PStr ''fixedentry''), (''params'', PRef 1), (''help'', PStr ''Widget class name'')]),
         (1, [(''state'', PStr ''readonly'')]),
         (2, [(''editor'', PStr ''namedid''), (''params'', PRef 3), (''help'', PStr ''Widget identifier'')]),
         (3, [(''mode'', PStr ''namedid''), (''placeholder'', PStr ''frame1'')]),
         (4, [(''editor'', PStr ''dynamic''), (''params'', PRef 5), (''help'', PRef 6),
              (''default'', PStr ''hello''), (''ttk.Label'', PRef 7)]),
         (5, [(''mode'', PStr ''text'')]),
         (6, [(''tk.'', PStr ''tk help''), (''ttk.'', PStr ''ttk help''), (''ttk.Label'', PStr ''label help'')]),
         (7, [(''params'', PRef 8)]),
         (8, [(''height'', PInt 3), (''mode'', PStr ''text'')]),
         (9, [(''editor'', PStr ''naturalnumber'')])],
      headers = [''Required'', ''Standard'', ''Specific'', ''Custom''],
      rows =
        [(\<lparr>label_text = ''class:'', label_gridded = True, tooltip_text = PStr ''Widget class name''\<rparr>,
          \<lparr>editor_wtype = PStr ''fixedentry'', editor_named_id = False, editor_pname = ''class'',
             editor_gridded = True, editor_params = [(''state'', PStr ''readonly'')],
             editor_value = PStr ''ttk.Frame''\<rparr>),
         (\<lparr>label_text = ''id:'', label_gridded = True, tooltip_text = PStr ''Widget identifier''\<rparr>,
          \<lparr>editor_wtype = PStr ''namedid'', editor_named_id = True, editor_pname = ''id'',
             editor_gridded = True, editor_params = [(''mode'', PStr ''namedid''), (''placeholder'', PStr ''frame1'')],
             editor_value = PStr ''''\<rparr>),
         (\<lparr>label_text = ''text:'', label_gridded = False, tooltip_text = PStr ''ttk help''\<rparr>,
          \<lparr>editor_wtype = PStr ''dynamic'', editor_named_id = False, editor_pname = ''text'',
             editor_gridded = False, editor_params = [(''height'', PInt 3), (''mode'', PStr ''text'')],
             editor_value = PStr ''hello''\<rparr>),
         (\<lparr>label_text = ''width:'', label_gridded = True, tooltip_text = PNone\<rparr>,
          \<lparr>editor_wtype = PStr ''naturalnumber'', editor_named_id = False, editor_pname = ''width'',
             editor_gridded = True, editor_params = [],
             editor_value = PStr ''200''\<rparr>)],
      propbag = [(''00class'', 0), (''00id'', 1), (''01text'', 2), (''02width'', 3)],
      priv_current = Some ex_frame,
      current = Some None,
      setter_calls = [],
      reposition_calls = 2\<rparr>"



section \<open>Frame properties\<close>

lemma map_list_update_same:
  assumes "f y = f (xs ! i)"
  shows "map f (xs[i := y]) = map f xs"
proof (cases "i < length xs")
  case True
  then show ?thesis using assms by (simp add: map_update list_update_same_conv)
next
  case False
  then have "xs[i := y] = xs" by (simp add: list_update_beyond)
  then show ?thesis by simp
qed

lemma update_editor_Raised:
  "update_editor i wd pname propdescr w = Raised e w' \<Longrightarrow> w' = w"
  by (auto simp: update_editor_def Let_def split: option.splits sum.splits)

lemma update_editor_Ok_shape:
  assumes "update_editor i wd pname propdescr w = Ok w'"
  shows "\<exists>h2 help params value. w' = w\<lparr>heap := h2, rows := (rows w)[i :=
            ((fst (rows w ! i))\<lparr>tooltip_text := help\<rparr>,
             (snd (rows w ! i))\<lparr>editor_params := params, editor_value := value\<rparr>)]\<rparr>"
  using assms
  by (auto simp: update_editor_def Let_def split: option.splits sum.splits)

text \<open>
  A relation between the state before and the state after that is reflexive and
  transitive and that the three steps of the loop body respect is respected by the
  loops, whether they end normally or with an exception.
\<close>

lemma edit_names_rel:
  assumes refl: "\<And>w. R w w"
    and trans: "\<And>a b c. R a b \<Longrightarrow> R b c \<Longrightarrow> R a c"
    and g: "\<And>i w. R w (grid_row i w)"
    and r: "\<And>i w. R w (grid_remove_row i w)"
    and u: "\<And>i wd pname pd w. R w (after (update_editor i wd pname pd w))"
  shows "R w (after (edit_names cd wd gcode attrname gp names w))"
proof (induction names arbitrary: w)
  case Nil
  show ?case by (simp add: refl)
next
  case (Cons name names)
  show ?case
  proof (cases "map_of gp name")
    case None
    then show ?thesis by (simp add: refl)
  next
    case (Some propdescr)
    note pd = this
    show ?thesis
    proof (cases "map_of (propbag w) (gcode @ name)")
      case None
      then show ?thesis using pd by (simp add: refl)
    next
      case (Some i)
      note bag = this
      show ?thesis
      proof (cases "is_shown cd gcode attrname name")
        case (Inl e)
        then show ?thesis using pd bag by (simp add: refl)
      next
        case (Inr shown)
        show ?thesis
        proof (cases shown)
          case False
          have "R w (after (edit_names cd wd gcode attrname gp names (grid_remove_row i w)))"
            using trans[OF r Cons.IH] .
          then show ?thesis using pd bag Inr False by simp
        next
          case True
          show ?thesis
          proof (cases "update_editor i wd name propdescr w")
            case (Raised e w')
            then show ?thesis
              using pd bag Inr True update_editor_Raised[OF Raised] by (simp add: refl)
          next
            case (Ok w')
            have "R w w'" using u[of w i wd name propdescr] Ok by simp
            then have "R w (after (edit_names cd wd gcode attrname gp names (grid_row i w')))"
              using trans[OF _ trans[OF g Cons.IH]] by blast
            then show ?thesis using pd bag Inr True Ok by simp
          qed
        qed
      qed
    qed
  qed
qed

lemma edit_groups_rel:
  assumes refl: "\<And>w. R w w"
    and trans: "\<And>a b c. R a b \<Longrightarrow> R b c \<Longrightarrow> R a c"
    and g: "\<And>i w. R w (grid_row i w)"
    and r: "\<And>i w. R w (grid_remove_row i w)"
    and u: "\<And>i wd pname pd w. R w (after (update_editor i wd pname pd w))"
  shows "R w (after (edit_groups cd wd gs w))"
proof (induction gs arbitrary: w)
  case Nil
  show ?case by (simp add: refl)
next
  case (Cons grp gs)
  obtain gcode attrname proplist gp where grp: "grp = (gcode, attrname, proplist, gp)"
    by (cases grp) auto
  have n: "R w (after (edit_names cd wd gcode attrname gp proplist w))"
    by (rule edit_names_rel[where R = R, OF refl trans g r u])
  show ?case
  proof (cases "edit_names cd wd gcode attrname gp proplist w")
    case (Ok w')
    then have "R w w'" using n by simp
    from trans[OF this Cons.IH] show ?thesis using grp Ok by simp
  next
    case (Raised e w')
    then show ?thesis using grp n by simp
  qed
qed

lemma edit_rel:
  assumes refl: "\<And>w. R w w"
    and trans: "\<And>a b c. R a b \<Longrightarrow> R b c \<Longrightarrow> R a c"
    and g: "\<And>i w. R w (grid_row i w)"
    and r: "\<And>i w. R w (grid_remove_row i w)"
    and u: "\<And>i wd pname pd w. R w (after (update_editor i wd pname pd w))"
    and c: "\<And>w x. R w (w\<lparr>priv_current := x\<rparr>)"
    and p: "\<And>w n. R w (w\<lparr>reposition_calls := n\<rparr>)"
  shows "R w (after (edit env wd w))"
proof (cases "CLASS_MAP env (classname wd)")
  case None
  then show ?thesis using c by (simp add: edit_def)
next
  case (Some cd)
  have s: "R w (after (edit_groups cd wd (groups env) (w\<lparr>priv_current := Some wd\<rparr>)))"
    by (rule trans[OF c edit_groups_rel[where R = R, OF refl trans g r u]])
  show ?thesis
  proof (cases "edit_groups cd wd (groups env) (w\<lparr>priv_current := Some wd\<rparr>)")
    case (Ok w')
    then have "R w w'" using s by simp
    from trans[OF this p] show ?thesis using Some Ok by (simp add: edit_def)
  next
    case (Raised e w')
    then show ?thesis using Some s by (simp add: edit_def)
  qed
qed

lemma fold_hide_rel:
  assumes refl: "\<And>w. R w w"
    and trans: "\<And>a b c. R a b \<Longrightarrow> R b c \<Longrightarrow> R a c"
    and r: "\<And>i w. R w (grid_remove_row i w)"
  shows "R w (fold (\<lambda>(_, i). grid_remove_row i) items w)"
proof (induction items arbitrary: w)
  case Nil
  show ?case by (simp add: refl)
next
  case (Cons x items)
  obtain k i where x: "x = (k, i)" by (cases x) auto
  from trans[OF r Cons.IH] show ?case by (simp add: x)
qed

subsection \<open>The widgets and the property bag are never changed\<close>

lemma skeleton_grid_row: "skeleton (grid_row i w) = skeleton w"
  by (simp add: skeleton_def grid_row_def map_list_update_same row_identity_def)

lemma skeleton_grid_remove_row: "skeleton (grid_remove_row i w) = skeleton w"
  by (simp add: skeleton_def grid_remove_row_def map_list_update_same row_identity_def)

lemma skeleton_update_editor:
  "skeleton (after (update_editor i wd pname propdescr w)) = skeleton w"
proof (cases "update_editor i wd pname propdescr w")
  case (Ok w')
  from update_editor_Ok_shape[OF Ok] show ?thesis
    by (auto simp: Ok skeleton_def map_list_update_same row_identity_def)
next
  case (Raised e w')
  then show ?thesis by (simp add: update_editor_Raised[OF Raised])
qed

lemma skeleton_edit: "skeleton (after (edit env wd w)) = skeleton w"
  by (rule edit_rel[where R = "\<lambda>a b. skeleton b = skeleton a"])
     (simp_all add: skeleton_grid_row skeleton_grid_remove_row skeleton_update_editor,
      simp_all add: skeleton_def)

lemma skeleton_hide_all: "skeleton (hide_all w) = skeleton w"
proof -
  have "skeleton (fold (\<lambda>(_, i). grid_remove_row i) (propbag w) (w\<lparr>current := Some None\<rparr>))
        = skeleton (w\<lparr>current := Some None\<rparr>)"
    by (rule fold_hide_rel[where R = "\<lambda>a b. skeleton b = skeleton a"])
       (simp_all add: skeleton_grid_remove_row)
  then show ?thesis by (simp add: hide_all_def skeleton_def)
qed

lemma skeleton_on_change_cb: "skeleton (after (on_change_cb i w)) = skeleton w"
  by (cases "priv_current w") (simp_all add: on_change_cb_def on_property_changed_def skeleton_def)

lemma skeleton_exec: "skeleton (after (exec env op w)) = skeleton w"
proof (cases op)
  case (Edit wd)
  then show ?thesis by (simp add: skeleton_edit)
next
  case HideAll
  then show ?thesis by (simp add: skeleton_hide_all)
next
  case (UpdateEditor i wd pname propdescr)
  then show ?thesis by (simp add: skeleton_update_editor)
next
  case (UserInput i v)
  then show ?thesis by (simp add: skeleton_def map_list_update_same row_identity_def)
next
  case (PropertyChanged i)
  then show ?thesis by (simp add: skeleton_on_change_cb)
qed

lemma skeleton_run: "skeleton (run env ops w) = skeleton w"
  unfolding run_def by (induction ops arbitrary: w) (simp_all add: skeleton_exec)

section \<open>The property bag after construction\<close>

lemma bag_inv_skeleton:
  assumes "skeleton w' = skeleton w" and "bag_inv w"
  shows "bag_inv w'"
proof -
  from assms(1) have pb: "propbag w' = propbag w"
    and m: "map row_identity (rows w') = map row_identity (rows w)"
    by (simp_all add: skeleton_def)
  from m have len: "length (rows w') = length (rows w)"
    by (metis length_map)
  have nm: "editor_pname (snd (rows w' ! i)) = editor_pname (snd (rows w ! i))"
    if "i < length (rows w)" for i
  proof -
    have "row_identity (rows w' ! i) = row_identity (rows w ! i)"
      using that len m by (metis nth_map)
    then show ?thesis by (simp add: row_identity_def)
  qed
  show ?thesis using assms(2) pb len nm by (simp add: bag_inv_def)
qed

lemma create_names_bag:
  assumes "create_names env gcode propdescr plist w = Inr w'"
    and "bag_inv w" and "length gcode = 2"
  shows "bag_inv w' \<and> fst ` set (propbag w') = fst ` set (propbag w) \<union> (\<lambda>n. gcode @ n) ` set plist"
  using assms
proof (induction plist arbitrary: w)
  case Nil
  then show ?case by simp
next
  case (Cons name plist)
  from Cons.prems(1) obtain kwdata widget where
    kw: "map_of propdescr name = Some kwdata" and
    ed: "create_editor env (heap w) name kwdata = Inr widget"
    by (auto split: option.splits sum.splits)
  define w1 where "w1 = w\<lparr>rows := rows w @
      [(\<lparr>label_text = name @ '':'', label_gridded = True, tooltip_text = PStr ''?''\<rparr>,
        widget\<lparr>editor_gridded := True\<rparr>)],
      propbag := AList.update (gcode @ name) (length (rows w)) (propbag w)\<rparr>"
  from Cons.prems(1) kw ed have rest: "create_names env gcode propdescr plist w1 = Inr w'"
    by (simp add: w1_def)
  from ed have pn: "editor_pname widget = name"
    by (auto simp: create_editor_def Let_def split: option.splits)
  have mo: "map_of (propbag w1) = (map_of (propbag w))(gcode @ name \<mapsto> length (rows w))"
    by (simp add: w1_def update_conv')
  have rw: "rows w1 = rows w @
      [(\<lparr>label_text = name @ '':'', label_gridded = True, tooltip_text = PStr ''?''\<rparr>,
        widget\<lparr>editor_gridded := True\<rparr>)]"
    by (simp add: w1_def)
  from Cons.prems(2) have old:
    "\<And>k i. map_of (propbag w) k = Some i \<Longrightarrow> i < length (rows w) \<and> editor_pname (snd (rows w ! i)) = drop 2 k"
    and inj: "\<And>k k' i. map_of (propbag w) k = Some i \<Longrightarrow> map_of (propbag w) k' = Some i \<Longrightarrow> k = k'"
    and dist: "distinct (map fst (propbag w))"
    by (auto simp: bag_inv_def)
  have d1: "distinct (map fst (propbag w1))"
    using dist by (simp add: w1_def distinct_update)
  have v1: "i < length (rows w1) \<and> editor_pname (snd (rows w1 ! i)) = drop 2 k"
    if "map_of (propbag w1) k = Some i" for k i
  proof (cases "k = gcode @ name")
    case True
    with that mo have "i = length (rows w)" by simp
    then show ?thesis using True pn Cons.prems(3) by (simp add: rw)
  next
    case False
    with that mo have "map_of (propbag w) k = Some i" by simp
    from old[OF this] show ?thesis by (simp add: rw nth_append)
  qed
  have i1: "k = k'" if "map_of (propbag w1) k = Some i" "map_of (propbag w1) k' = Some i" for k k' i
  proof -
    have fresh: "map_of (propbag w) k'' \<noteq> Some (length (rows w))" for k''
      using old[of k'' "length (rows w)"] by auto
    show ?thesis using that mo inj fresh
      by (auto simp: fun_upd_def split: if_splits)
  qed
  have b1: "bag_inv w1" using d1 v1 i1 unfolding bag_inv_def by blast
  have k1: "fst ` set (propbag w1) = insert (gcode @ name) (fst ` set (propbag w))"
    by (simp add: w1_def dom_update)
  from Cons.IH[OF rest b1 Cons.prems(3)] k1 show ?case by auto
qed

lemma create_properties_bag:
  assumes "create_properties env w = Inr w'" and "bag_inv w"
  shows "bag_inv w' \<and> fst ` set (propbag w') = fst ` set (propbag w) \<union> group_keys env"
proof -
  have hd: "bag_inv (v\<lparr>headers := hs\<rparr>) = bag_inv v" for v hs by (simp add: bag_inv_def)
  from assms(1) obtain w1 w2 w3 where
    s1: "create_names env ''00'' (REQUIRED_OPTIONS env) (WIDGET_REQUIRED_OPTIONS env) (w\<lparr>headers := headers w @ [''Required'']\<rparr>) = Inr w1" and
    s2: "create_names env ''01'' (TK_WIDGET_OPTIONS env) (WIDGET_STANDARD_OPTIONS env) (w1\<lparr>headers := headers w1 @ [''Standard'']\<rparr>) = Inr w2" and
    s3: "create_names env ''02'' (TK_WIDGET_OPTIONS env) (WIDGET_SPECIFIC_OPTIONS env) (w2\<lparr>headers := headers w2 @ [''Specific'']\<rparr>) = Inr w3" and
    s4: "create_names env ''03'' (CUSTOM_OPTIONS env) (WIDGET_CUSTOM_OPTIONS env) (w3\<lparr>headers := headers w3 @ [''Custom'']\<rparr>) = Inr w'"
    by (auto simp: create_properties_def split: sum.splits)
  from create_names_bag[OF s1] assms(2) have b1: "bag_inv w1"
    and k1: "fst ` set (propbag w1) = fst ` set (propbag w) \<union> (\<lambda>n. ''00'' @ n) ` set (WIDGET_REQUIRED_OPTIONS env)"
    by (simp_all add: hd)
  from create_names_bag[OF s2] b1 have b2: "bag_inv w2"
    and k2: "fst ` set (propbag w2) = fst ` set (propbag w1) \<union> (\<lambda>n. ''01'' @ n) ` set (WIDGET_STANDARD_OPTIONS env)"
    by (simp_all add: hd)
  from create_names_bag[OF s3] b2 have b3: "bag_inv w3"
    and k3: "fst ` set (propbag w3) = fst ` set (propbag w2) \<union> (\<lambda>n. ''02'' @ n) ` set (WIDGET_SPECIFIC_OPTIONS env)"
    by (simp_all add: hd)
  from create_names_bag[OF s4] b3 have b4: "bag_inv w'"
    and k4: "fst ` set (propbag w') = fst ` set (propbag w3) \<union> (\<lambda>n. ''03'' @ n) ` set (WIDGET_CUSTOM_OPTIONS env)"
    by (simp_all add: hd)
  show ?thesis using b4 k1 k2 k3 k4 by (auto simp: group_keys_def)
qed

lemma panel_inv_init:
  assumes "PropertiesEditor_init env h = Inr w"
  shows "panel_inv env w"
proof -
  from assms obtain w0 where
    c: "create_properties env \<lparr>heap = h, headers = [], rows = [], propbag = [], priv_current = None,
              current = None, setter_calls = [], reposition_calls = 0\<rparr> = Inr w0"
    and w: "w = hide_all w0"
    by (auto simp: PropertiesEditor_init_def split: sum.splits)
  have "bag_inv \<lparr>heap = h, headers = [], rows = [], propbag = [], priv_current = None,
              current = None, setter_calls = [], reposition_calls = 0\<rparr>"
    by (simp add: bag_inv_def)
  from create_properties_bag[OF c this] have "bag_inv w0" and "fst ` set (propbag w0) = group_keys env"
    by simp_all
  moreover have "skeleton w = skeleton w0" by (simp add: w skeleton_hide_all)
  ultimately show ?thesis
    using bag_inv_skeleton[of w w0] by (simp add: panel_inv_def skeleton_def)
qed

lemma panel_inv_run:
  assumes "panel_inv env w"
  shows "panel_inv env (run env ops w)"
  using assms bag_inv_skeleton[OF skeleton_run[of env ops w]] skeleton_run[of env ops w]
  by (simp add: panel_inv_def skeleton_def)

subsection \<open>The current widget descriptor\<close>

lemma priv_current_update_editor:
  "priv_current (after (update_editor i wd pname propdescr w)) = priv_current w"
proof (cases "update_editor i wd pname propdescr w")
  case (Ok w')
  from update_editor_Ok_shape[OF Ok] show ?thesis by (auto simp: Ok)
next
  case (Raised e w')
  then show ?thesis by (simp add: update_editor_Raised[OF Raised])
qed

lemma priv_current_edit: "priv_current (after (edit env wd w)) = Some wd"
proof (cases "CLASS_MAP env (classname wd)")
  case None
  then show ?thesis by (simp add: edit_def)
next
  case (Some cd)
  have s: "priv_current (after (edit_groups cd wd (groups env) (w\<lparr>priv_current := Some wd\<rparr>)))
           = priv_current (w\<lparr>priv_current := Some wd\<rparr>)"
    by (rule edit_groups_rel[where R = "\<lambda>a b. priv_current b = priv_current a"])
       (simp_all add: grid_row_def grid_remove_row_def priv_current_update_editor)
  show ?thesis
  proof (cases "edit_groups cd wd (groups env) (w\<lparr>priv_current := Some wd\<rparr>)")
    case (Ok w')
    then show ?thesis using Some s by (simp add: edit_def)
  next
    case (Raised e w')
    then show ?thesis using Some s by (simp add: edit_def)
  qed
qed

lemma priv_current_hide_all: "priv_current (hide_all w) = priv_current w"
proof -
  have "priv_current (fold (\<lambda>(_, i). grid_remove_row i) (propbag w) (w\<lparr>current := Some None\<rparr>))
        = priv_current (w\<lparr>current := Some None\<rparr>)"
    by (rule fold_hide_rel[where R = "\<lambda>a b. priv_current b = priv_current a"])
       (simp_all add: grid_remove_row_def)
  then show ?thesis by (simp add: hide_all_def)
qed

lemma current_hide_all: "current (hide_all w) = Some None"
proof -
  have "current (fold (\<lambda>(_, i). grid_remove_row i) (propbag w) (w\<lparr>current := Some None\<rparr>))
        = current (w\<lparr>current := Some None\<rparr>)"
    by (rule fold_hide_rel[where R = "\<lambda>a b. current b = current a"])
       (simp_all add: grid_remove_row_def)
  then show ?thesis by (simp add: hide_all_def)
qed

lemma priv_current_exec:
  assumes "\<forall>wd. op \<noteq> Edit wd"
  shows "priv_current (after (exec env op w)) = priv_current w"
proof (cases op)
  case (Edit wd)
  then show ?thesis using assms by simp
next
  case HideAll
  then show ?thesis by (simp add: priv_current_hide_all)
next
  case (UpdateEditor i wd pname propdescr)
  then show ?thesis by (simp add: priv_current_update_editor)
next
  case (UserInput i v)
  then show ?thesis by simp
next
  case (PropertyChanged i)
  then show ?thesis
    by (cases "priv_current w") (simp_all add: on_change_cb_def on_property_changed_def)
qed

lemma priv_current_run:
  assumes "\<forall>op\<in>set ops. \<forall>wd. op \<noteq> Edit wd"
  shows "priv_current (run env ops w) = priv_current w"
  using assms unfolding run_def
  by (induction ops arbitrary: w) (simp_all add: priv_current_exec)

lemma on_change_cb_Some:
  assumes "priv_current w = Some wd"
  shows "on_change_cb i w = Ok (w\<lparr>setter_calls := setter_calls w @
           [(wd, editor_pname (snd (rows w ! i)), editor_value (snd (rows w ! i)))]\<rparr>)"
  using assms by (simp add: on_change_cb_def on_property_changed_def)

lemma on_change_cb_None:
  assumes "priv_current w = None"
  shows "on_change_cb i w = Raised AttributeError w"
  using assms by (simp add: on_change_cb_def on_property_changed_def)

lemma bag_inv_mem:
  assumes "bag_inv w" and "(k, i) \<in> set (propbag w)"
  shows "i < length (rows w) \<and> editor_pname (snd (rows w ! i)) = drop 2 k"
proof -
  from assms have "map_of (propbag w) k = Some i" by (simp add: bag_inv_def)
  with assms(1) show ?thesis unfolding bag_inv_def by blast
qed

section \<open>What is in the grid\<close>

lemma gridded_grid_row:
  "gridded (grid_row i w) j = (if j = i \<and> i < length (rows w) then (True, True) else gridded w j)"
proof (cases "i < length (rows w)")
  case True
  then show ?thesis by (simp add: gridded_def grid_row_def nth_list_update)
next
  case False
  then have "(rows w)[i := r] = rows w" for r by (simp add: list_update_beyond)
  with False show ?thesis by (simp add: gridded_def grid_row_def)
qed

lemma gridded_grid_remove_row:
  "gridded (grid_remove_row i w) j =
     (if j = i \<and> i < length (rows w) then (False, False) else gridded w j)"
proof (cases "i < length (rows w)")
  case True
  then show ?thesis by (simp add: gridded_def grid_remove_row_def nth_list_update)
next
  case False
  then have "(rows w)[i := r] = rows w" for r by (simp add: list_update_beyond)
  with False show ?thesis by (simp add: gridded_def grid_remove_row_def)
qed

lemma gridded_update_editor:
  assumes "update_editor i wd pname propdescr w = Ok w'"
  shows "gridded w' j = gridded w j"
proof -
  from update_editor_Ok_shape[OF assms] obtain h2 hlp params v where
    w': "w' = w\<lparr>heap := h2, rows := (rows w)[i :=
            ((fst (rows w ! i))\<lparr>tooltip_text := hlp\<rparr>,
             (snd (rows w ! i))\<lparr>editor_params := params, editor_value := v\<rparr>)]\<rparr>"
    by blast
  show ?thesis
  proof (cases "i < length (rows w)")
    case True
    then show ?thesis by (simp add: w' gridded_def nth_list_update)
  next
    case False
    then have "(rows w)[i := r] = rows w" for r by (simp add: list_update_beyond)
    then show ?thesis by (simp add: w' gridded_def)
  qed
qed

lemma skeleton_bag:
  assumes "skeleton w' = skeleton w"
  shows "propbag w' = propbag w" and "length (rows w') = length (rows w)"
proof -
  from assms show "propbag w' = propbag w" by (simp add: skeleton_def)
  from assms have "map row_identity (rows w') = map row_identity (rows w)"
    by (simp add: skeleton_def)
  then show "length (rows w') = length (rows w)" by (metis length_map)
qed

lemma edit_names_Ok:
  assumes "edit_names cd wd g a gp names w = Ok w'" and "bag_inv w"
  shows "(\<forall>name\<in>set names. \<exists>pd i b. map_of gp name = Some pd \<and>
            map_of (propbag w) (g @ name) = Some i \<and> is_shown cd g a name = Inr b \<and>
            gridded w' i = (b, b)) \<and>
         (\<forall>j. (\<forall>name\<in>set names. map_of (propbag w) (g @ name) \<noteq> Some j) \<longrightarrow>
            gridded w' j = gridded w j)"
  using assms
proof (induction names arbitrary: w)
  case Nil
  then show ?case by simp
next
  case (Cons name names)
  from Cons.prems(1) obtain pd i b where
    pd: "map_of gp name = Some pd" and bag: "map_of (propbag w) (g @ name) = Some i"
    and sh: "is_shown cd g a name = Inr b"
    by (auto split: option.splits sum.splits)
  from Cons.prems(2) bag have i: "i < length (rows w)" unfolding bag_inv_def by blast
  from Cons.prems(2) have inj:
    "\<And>k k' j. map_of (propbag w) k = Some j \<Longrightarrow> map_of (propbag w) k' = Some j \<Longrightarrow> k = k'"
    unfolding bag_inv_def by blast
  obtain w1 where
    rest: "edit_names cd wd g a gp names w1 = Ok w'" and sk: "skeleton w1 = skeleton w"
    and g1: "\<And>j. gridded w1 j = (if j = i then (b, b) else gridded w j)"
  proof (cases b)
    case False
    have "edit_names cd wd g a gp names (grid_remove_row i w) = Ok w'"
      using Cons.prems(1) pd bag sh False by simp
    moreover have "skeleton (grid_remove_row i w) = skeleton w" by (rule skeleton_grid_remove_row)
    moreover have "\<And>j. gridded (grid_remove_row i w) j = (if j = i then (b, b) else gridded w j)"
      using i False by (simp add: gridded_grid_remove_row)
    ultimately show ?thesis by (rule that)
  next
    case True
    from Cons.prems(1) pd bag sh True obtain wu where
      u: "update_editor i wd name pd w = Ok wu"
      and r: "edit_names cd wd g a gp names (grid_row i wu) = Ok w'"
      by (auto split: outcome.splits)
    have su: "skeleton wu = skeleton w" using skeleton_update_editor[of i wd name pd w] u by simp
    have "skeleton (grid_row i wu) = skeleton w" by (simp add: skeleton_grid_row su)
    moreover have "\<And>j. gridded (grid_row i wu) j = (if j = i then (b, b) else gridded w j)"
      using i True skeleton_bag(2)[OF su] gridded_update_editor[OF u]
      by (simp add: gridded_grid_row)
    ultimately show ?thesis using r by (rule that[rotated])
  qed
  have pb1: "propbag w1 = propbag w" by (rule skeleton_bag(1)[OF sk])
  have b1: "bag_inv w1" by (rule bag_inv_skeleton[OF sk Cons.prems(2)])
  from Cons.IH[OF rest b1] have
    ih1: "\<And>n. n \<in> set names \<Longrightarrow> \<exists>pd i b. map_of gp n = Some pd \<and>
            map_of (propbag w) (g @ n) = Some i \<and> is_shown cd g a n = Inr b \<and>
            gridded w' i = (b, b)"
    and ih2: "\<And>j. (\<forall>n\<in>set names. map_of (propbag w) (g @ n) \<noteq> Some j) \<Longrightarrow>
            gridded w' j = gridded w1 j"
    by (simp_all add: pb1)
  have head: "\<exists>pd i b. map_of gp name = Some pd \<and>
            map_of (propbag w) (g @ name) = Some i \<and> is_shown cd g a name = Inr b \<and>
            gridded w' i = (b, b)"
  proof (cases "name \<in> set names")
    case True
    then show ?thesis by (rule ih1)
  next
    case False
    have "\<forall>n\<in>set names. map_of (propbag w) (g @ n) \<noteq> Some i"
    proof
      fix n assume n: "n \<in> set names"
      show "map_of (propbag w) (g @ n) \<noteq> Some i"
      proof
        assume "map_of (propbag w) (g @ n) = Some i"
        from inj[OF this bag] have "n = name" by simp
        with n False show False by simp
      qed
    qed
    from ih2[OF this] have "gridded w' i = (b, b)" by (simp add: g1)
    with pd bag sh show ?thesis by blast
  qed
  have others: "gridded w' j = gridded w j"
    if "\<forall>n\<in>set (name # names). map_of (propbag w) (g @ n) \<noteq> Some j" for j
  proof -
    from that bag have "j \<noteq> i" by auto
    moreover from that have "gridded w' j = gridded w1 j" by (intro ih2) simp
    ultimately show ?thesis by (simp add: g1)
  qed
  show ?case using head ih1 others by auto
qed

lemma edit_groups_Ok:
  assumes "edit_groups cd wd gs w = Ok w'" and "bag_inv w"
    and "distinct (map fst gs)" and "\<forall>grp\<in>set gs. length (fst grp) = 2"
  shows "(\<forall>(g, a, names, gp)\<in>set gs. \<forall>name\<in>set names. \<exists>pd i b. map_of gp name = Some pd \<and>
            map_of (propbag w) (g @ name) = Some i \<and> is_shown cd g a name = Inr b \<and>
            gridded w' i = (b, b)) \<and>
         (\<forall>j. (\<forall>(g, a, names, gp)\<in>set gs. \<forall>name\<in>set names.
                  map_of (propbag w) (g @ name) \<noteq> Some j) \<longrightarrow>
            gridded w' j = gridded w j)"
  using assms
proof (induction gs arbitrary: w)
  case Nil
  then show ?case by simp
next
  case (Cons grp gs)
  obtain g a names gp where grp: "grp = (g, a, names, gp)" by (cases grp) auto
  from Cons.prems(1) grp obtain w1 where
    first: "edit_names cd wd g a gp names w = Ok w1" and
    rest: "edit_groups cd wd gs w1 = Ok w'"
    by (auto split: outcome.splits)
  have sk: "skeleton w1 = skeleton w"
    using edit_names_rel[where R = "\<lambda>x y. skeleton y = skeleton x" and w = w,
        of cd wd g a gp names] first
    by (simp add: skeleton_grid_row skeleton_grid_remove_row skeleton_update_editor)
  have pb1: "propbag w1 = propbag w" by (rule skeleton_bag(1)[OF sk])
  have b1: "bag_inv w1" by (rule bag_inv_skeleton[OF sk Cons.prems(2)])
  from Cons.prems(2) have inj:
    "\<And>k k' j. map_of (propbag w) k = Some j \<Longrightarrow> map_of (propbag w) k' = Some j \<Longrightarrow> k = k'"
    unfolding bag_inv_def by blast
  from edit_names_Ok[OF first Cons.prems(2)] have
    n1: "\<And>name. name \<in> set names \<Longrightarrow> \<exists>pd i b. map_of gp name = Some pd \<and>
            map_of (propbag w) (g @ name) = Some i \<and> is_shown cd g a name = Inr b \<and>
            gridded w1 i = (b, b)"
    and n2: "\<And>j. (\<forall>name\<in>set names. map_of (propbag w) (g @ name) \<noteq> Some j) \<Longrightarrow>
            gridded w1 j = gridded w j"
    by blast+
  from Cons.prems(3,4) have d: "distinct (map fst gs)" and l: "\<forall>grp\<in>set gs. length (fst grp) = 2"
    by simp_all
  from Cons.IH[OF rest b1 d l] have
    ih1: "\<And>g' a' names' gp' name. (g', a', names', gp') \<in> set gs \<Longrightarrow> name \<in> set names' \<Longrightarrow>
            \<exists>pd i b. map_of gp' name = Some pd \<and>
            map_of (propbag w) (g' @ name) = Some i \<and> is_shown cd g' a' name = Inr b \<and>
            gridded w' i = (b, b)"
    and ih2: "\<And>j. (\<forall>(g', a', names', gp')\<in>set gs. \<forall>name\<in>set names'.
                  map_of (propbag w) (g' @ name) \<noteq> Some j) \<Longrightarrow> gridded w' j = gridded w1 j"
    by (auto simp: pb1)
  have lg: "length g = 2" using Cons.prems(4) grp by simp
  have head: "\<exists>pd i b. map_of gp name = Some pd \<and>
            map_of (propbag w) (g @ name) = Some i \<and> is_shown cd g a name = Inr b \<and>
            gridded w' i = (b, b)" if nm: "name \<in> set names" for name
  proof -
    from n1[OF nm] obtain pd i b where
      f: "map_of gp name = Some pd" "map_of (propbag w) (g @ name) = Some i"
         "is_shown cd g a name = Inr b" "gridded w1 i = (b, b)"
      by blast
    have "\<forall>(g', a', names', gp')\<in>set gs. \<forall>n\<in>set names'. map_of (propbag w) (g' @ n) \<noteq> Some i"
    proof (clarify)
      fix g' a' names' gp' n
      assume mem: "(g', a', names', gp') \<in> set gs" and "n \<in> set names'"
        and eq: "map_of (propbag w) (g' @ n) = Some i"
      from inj[OF eq f(2)] have e: "g' @ n = g @ name" .
      from mem l have "length g' = 2" by fastforce
      with e lg have "g' = g" by (metis append_eq_append_conv)
      moreover from Cons.prems(3) grp have "g \<notin> fst ` set gs" by simp
      ultimately show False using mem by force
    qed
    from ih2[OF this] f show ?thesis by auto
  qed
  have others: "gridded w' j = gridded w j"
    if "\<forall>(g', a', names', gp')\<in>set (grp # gs). \<forall>name\<in>set names'.
                  map_of (propbag w) (g' @ name) \<noteq> Some j" for j
  proof -
    from that grp have "gridded w1 j = gridded w j" by (intro n2) simp
    moreover from that have "gridded w' j = gridded w1 j" by (intro ih2) simp
    ultimately show ?thesis by simp
  qed
  show ?case using head ih1 others grp by auto
qed

lemma groups_codes: "distinct (map fst (groups env))" "\<forall>grp\<in>set (groups env). length (fst grp) = 2"
  by (simp_all add: groups_def)

lemma group_keys_cases:
  assumes "k \<in> group_keys env"
  shows "\<exists>g a names gp name. (g, a, names, gp) \<in> set (groups env) \<and> name \<in> set names \<and> k = g @ name"
proof -
  from assms consider
      (req) n where "n \<in> set (WIDGET_REQUIRED_OPTIONS env)" "k = ''00'' @ n"
    | (std) n where "n \<in> set (WIDGET_STANDARD_OPTIONS env)" "k = ''01'' @ n"
    | (spc) n where "n \<in> set (WIDGET_SPECIFIC_OPTIONS env)" "k = ''02'' @ n"
    | (cst) n where "n \<in> set (WIDGET_CUSTOM_OPTIONS env)" "k = ''03'' @ n"
    unfolding group_keys_def by blast
  then show ?thesis
  proof cases
    case req
    have "(''00'', None, WIDGET_REQUIRED_OPTIONS env, REQUIRED_OPTIONS env) \<in> set (groups env)"
      by (simp add: groups_def)
    with req show ?thesis by blast
  next
    case std
    have "(''01'', Some ''OPTIONS_STANDARD'', WIDGET_STANDARD_OPTIONS env, TK_WIDGET_OPTIONS env)
            \<in> set (groups env)"
      by (simp add: groups_def)
    with std show ?thesis by blast
  next
    case spc
    have "(''02'', Some ''OPTIONS_SPECIFIC'', WIDGET_SPECIFIC_OPTIONS env, TK_WIDGET_OPTIONS env)
            \<in> set (groups env)"
      by (simp add: groups_def)
    with spc show ?thesis by blast
  next
    case cst
    have "(''03'', Some ''OPTIONS_CUSTOM'', WIDGET_CUSTOM_OPTIONS env, CUSTOM_OPTIONS env)
            \<in> set (groups env)"
      by (simp add: groups_def)
    with cst show ?thesis by blast
  qed
qed

lemma is_shown_declared:
  assumes "(g, a, names, gp) \<in> set (groups env)" and "name \<in> set names"
    and "is_shown cd g a name = Inr b"
  shows "b \<longleftrightarrow> g @ name \<in> shown_keys env cd"
  using assms
  by (auto simp: groups_def is_shown_def shown_keys_def declared_def split: option.splits)

lemma length_rows_grid_remove_row: "length (rows (grid_remove_row i w)) = length (rows w)"
  by (simp add: grid_remove_row_def)

lemma gridded_fold_hide:
  "gridded (fold (\<lambda>(_, i). grid_remove_row i) items w) j =
     (if j \<in> snd ` set items \<and> j < length (rows w) then (False, False) else gridded w j)"
proof (induction items arbitrary: w)
  case Nil
  show ?case by simp
next
  case (Cons x items)
  obtain k i where x: "x = (k, i)" by (cases x) auto
  show ?case
    using Cons.IH[of "grid_remove_row i w"]
    by (auto simp: x gridded_grid_remove_row length_rows_grid_remove_row)
qed

lemma reachable_panel_inv:
  assumes "PropertiesEditor_init env h = Inr w0" and "w = run env ops w0"
  shows "panel_inv env w"
  using panel_inv_run[OF panel_inv_init[OF assms(1)]] assms(2) by simp

section \<open>Exceptions\<close>



section \<open>What update\_editor does\<close>

lemma get_params_Inr:
  assumes "get_params h pdescr = Inr (r, d0)"
  shows "(r = None \<and> d0 = [] \<and> map_of pdescr ''params'' = None) \<or>
         (\<exists>p. r = Some p \<and> map_of pdescr ''params'' = Some (PRef p) \<and> map_of h p = Some d0)"
  using assms by (auto simp: get_params_def split: option.splits pyval.splits)

lemma update_editor_Ok_char:
  assumes "update_editor i wd pname propdescr w = Ok w'"
  shows "\<exists>pdescr0 m pdescr r d0.
      deref (heap w) propdescr = Some pdescr0 \<and> default_mode_of (heap w) pdescr0 = Inr m \<and>
      class_merge (heap w) (classname wd) pdescr0 = Inr pdescr \<and>
      get_params (heap w) pdescr = Inr (r, d0) \<and>
      map_of (heap w') =
        (case r of None \<Rightarrow> map_of (heap w)
         | Some p \<Rightarrow> (map_of (heap w))(p \<mapsto>
             params_after m (pname = ''id'' \<and> editor_named_id (snd (rows w ! i))) (start_id wd) d0)) \<and>
      rows w' = (rows w)[i :=
        ((fst (rows w ! i))\<lparr>tooltip_text := resolve_help (heap w') (classname wd) pdescr\<rparr>,
         (snd (rows w ! i))\<lparr>editor_params :=
             params_after m (pname = ''id'' \<and> editor_named_id (snd (rows w ! i))) (start_id wd) d0,
           editor_value := resolve_value (heap w') pdescr (widget_property_get wd pname)\<rparr>)]"
proof -
  from assms obtain pdescr0 m pdescr r d0 where
    l: "deref (heap w) propdescr = Some pdescr0" "default_mode_of (heap w) pdescr0 = Inr m"
       "class_merge (heap w) (classname wd) pdescr0 = Inr pdescr"
       "get_params (heap w) pdescr = Inr (r, d0)"
    by (auto simp: update_editor_def split: option.splits sum.splits)
  from get_params_Inr[OF l(4)] have triv: "\<And>p. r = Some p \<Longrightarrow> (map_of (heap w))(p \<mapsto> d0) = map_of (heap w)"
    by (auto simp: fun_eq_iff)
  show ?thesis
    using assms l triv
    by (cases r)
       (auto simp: update_editor_def params_setitem_def params_after_def Let_def update_conv')
qed

lemma startswith_prefix: "startswith s p \<longleftrightarrow> prefix p s"
  by (induction s p rule: startswith.induct) auto

lemma help_items_first_match:
  "(\<exists>n<length items. prefix (fst (items ! n)) cname \<and>
       (\<forall>m<n. \<not> prefix (fst (items ! m)) cname) \<and> help_items cname items = snd (items ! n)) \<or>
   ((\<forall>kv\<in>set items. \<not> prefix (fst kv) cname) \<and> help_items cname items = PStr '''')"
proof (induction items)
  case Nil
  show ?case by simp
next
  case (Cons kv items)
  obtain k v where kv: "kv = (k, v)" by (cases kv) auto
  show ?case
  proof (cases "prefix k cname")
    case True
    then have "0 < length (kv # items) \<and> prefix (fst ((kv # items) ! 0)) cname \<and>
       (\<forall>m<0. \<not> prefix (fst ((kv # items) ! m)) cname) \<and>
       help_items cname (kv # items) = snd ((kv # items) ! 0)"
      by (simp add: kv startswith_prefix)
    then show ?thesis by blast
  next
    case False
    from Cons.IH show ?thesis
    proof
      assume "\<exists>n<length items. prefix (fst (items ! n)) cname \<and>
         (\<forall>m<n. \<not> prefix (fst (items ! m)) cname) \<and> help_items cname items = snd (items ! n)"
      then obtain n where n: "n < length items" "prefix (fst (items ! n)) cname"
        "\<forall>m<n. \<not> prefix (fst (items ! m)) cname" "help_items cname items = snd (items ! n)"
        by blast
      have "\<forall>m<Suc n. \<not> prefix (fst ((kv # items) ! m)) cname"
      proof (intro allI impI)
        fix m assume "m < Suc n"
        then show "\<not> prefix (fst ((kv # items) ! m)) cname"
          using False n(3) kv by (cases m) simp_all
      qed
      with n False have "Suc n < length (kv # items) \<and> prefix (fst ((kv # items) ! Suc n)) cname \<and>
         (\<forall>m<Suc n. \<not> prefix (fst ((kv # items) ! m)) cname) \<and>
         help_items cname (kv # items) = snd ((kv # items) ! Suc n)"
        by (simp add: kv startswith_prefix)
      then show ?thesis by blast
    next
      assume "(\<forall>kv\<in>set items. \<not> prefix (fst kv) cname) \<and> help_items cname items = PStr ''''"
      with False show ?thesis by (simp add: kv startswith_prefix)
    qed
  qed
qed

lemma map_of_dict_merge:
  assumes "distinct (map fst od)"
  shows "map_of (dict_merge d od) k = (case map_of od k of Some v \<Rightarrow> Some v | None \<Rightarrow> map_of d k)"
  using assms unfolding dict_merge_def
proof (induction od arbitrary: d)
  case Nil
  show ?case by simp
next
  case (Cons x od)
  obtain k0 v0 where x: "x = (k0, v0)" by (cases x) auto
  from Cons.prems x have d: "distinct (map fst od)" and n: "map_of od k0 = None"
    by (simp_all add: map_of_eq_None_iff)
  show ?case
    using Cons.IH[OF d, of "AList.update k0 v0 d"] n
    by (simp add: x update_conv' split: option.splits)
qed




subsection \<open>The store only grows\<close>






lemma update_editor_row:
  assumes "update_editor i wd pname propdescr w = Ok w'" and "i < length (rows w)"
    and "deref (heap w) propdescr = Some pdescr0"
    and "class_merge (heap w) (classname wd) pdescr0 = Inr pdescr"
  shows "tooltip_text (fst (rows w' ! i)) = resolve_help (heap w') (classname wd) pdescr"
    and "editor_value (snd (rows w' ! i)) = resolve_value (heap w') pdescr (widget_property_get wd pname)"
    and "\<exists>m r d0. default_mode_of (heap w) pdescr0 = Inr m \<and> get_params (heap w) pdescr = Inr (r, d0) \<and>
           editor_params (snd (rows w' ! i)) =
             params_after m (pname = ''id'' \<and> editor_named_id (snd (rows w ! i))) (start_id wd) d0 \<and>
           map_of (heap w') =
             (case r of None \<Rightarrow> map_of (heap w)
              | Some p \<Rightarrow> (map_of (heap w))(p \<mapsto>
                  params_after m (pname = ''id'' \<and> editor_named_id (snd (rows w ! i))) (start_id wd) d0))"
  using update_editor_Ok_char[OF assms(1)] assms(2,3,4) by auto

text \<open>The value passed to the editor, as the code computes it: a current value that is not
  truthy is replaced only by a default that is truthy.\<close>

lemma displayed_value_exact:
  assumes "update_editor i wd pname propdescr w = Ok w'" and "i < length (rows w)"
    and "deref (heap w) propdescr = Some pdescr0"
    and "class_merge (heap w) (classname wd) pdescr0 = Inr pdescr"
  shows "editor_value (snd (rows w' ! i)) =
           (let cur = widget_property_get wd pname;
                dflt = (case map_of pdescr ''default'' of None \<Rightarrow> PStr '''' | Some d \<Rightarrow> d)
            in if truthy (heap w') cur then cur
               else if truthy (heap w') dflt then dflt else cur)"
  using update_editor_row(2)[OF assms] by (simp add: resolve_value_def Let_def)

section \<open>edit returns when the tables are well formed\<close>

lemma same_shape_refl: "same_shape h h"
  unfolding same_shape_def by simp

lemma same_shape_trans:
  assumes "same_shape h1 h2" and "same_shape h2 h3"
  shows "same_shape h1 h3"
  unfolding same_shape_def
proof (intro allI conjI impI)
  fix a assume "map_of h1 a = None"
  with assms show "map_of h3 a = None" unfolding same_shape_def by blast
next
  fix a d assume "map_of h1 a = Some d"
  with assms(1) obtain d2 where d2: "map_of h2 a = Some d2"
    "distinct (map fst d) \<longrightarrow> distinct (map fst d2)"
    "\<forall>k. k \<noteq> ''mode'' \<longrightarrow> k \<noteq> ''placeholder'' \<longrightarrow> map_of d2 k = map_of d k"
    unfolding same_shape_def by blast
  from d2(1) assms(2) obtain d3 where d3: "map_of h3 a = Some d3"
    "distinct (map fst d2) \<longrightarrow> distinct (map fst d3)"
    "\<forall>k. k \<noteq> ''mode'' \<longrightarrow> k \<noteq> ''placeholder'' \<longrightarrow> map_of d3 k = map_of d2 k"
    unfolding same_shape_def by blast
  from d2 d3 show "\<exists>d'. map_of h3 a = Some d' \<and>
      (distinct (map fst d) \<longrightarrow> distinct (map fst d')) \<and>
      (\<forall>k. k \<noteq> ''mode'' \<longrightarrow> k \<noteq> ''placeholder'' \<longrightarrow> map_of d' k = map_of d k)"
    by auto
qed

lemma params_after_shape:
  "(distinct (map fst d0) \<longrightarrow> distinct (map fst (params_after m ph sid d0))) \<and>
   (\<forall>k. k \<noteq> ''mode'' \<longrightarrow> k \<noteq> ''placeholder'' \<longrightarrow>
      map_of (params_after m ph sid d0) k = map_of d0 k)"
  by (simp add: params_after_def Let_def update_conv' distinct_update)

lemma same_shape_update_editor:
  "same_shape (heap w) (heap (after (update_editor i wd pname propdescr w)))"
proof (cases "update_editor i wd pname propdescr w")
  case (Raised e w')
  then show ?thesis by (simp add: update_editor_Raised[OF Raised] same_shape_refl)
next
  case (Ok w')
  from update_editor_Ok_char[OF Ok] obtain pdescr m r d0 where
    gp: "get_params (heap w) pdescr = Inr (r, d0)" and
    h: "map_of (heap w') =
        (case r of None \<Rightarrow> map_of (heap w)
         | Some p \<Rightarrow> (map_of (heap w))(p \<mapsto>
             params_after m (pname = ''id'' \<and> editor_named_id (snd (rows w ! i))) (start_id wd) d0))"
    by blast
  have "same_shape (heap w) (heap w')"
  proof (cases r)
    case None
    then show ?thesis using h by (simp add: same_shape_def)
  next
    case (Some p)
    with get_params_Inr[OF gp] have p: "map_of (heap w) p = Some d0" by simp
    show ?thesis
      unfolding same_shape_def using h Some p params_after_shape[of d0]
      by auto
  qed
  then show ?thesis by (simp add: Ok)
qed

lemma same_shape_exec: "same_shape (heap w) (heap (after (exec env op w)))"
proof (cases op)
  case (Edit wd)
  have "same_shape (heap w) (heap (after (edit env wd w)))"
    by (rule edit_rel[where R = "\<lambda>a b. same_shape (heap a) (heap b)"])
       (auto simp: same_shape_refl grid_row_def grid_remove_row_def same_shape_update_editor
             intro: same_shape_trans)
  then show ?thesis by (simp add: Edit)
next
  case HideAll
  have "same_shape (heap (w\<lparr>current := Some None\<rparr>))
          (heap (fold (\<lambda>(_, i). grid_remove_row i) (propbag w) (w\<lparr>current := Some None\<rparr>)))"
    by (rule fold_hide_rel[where R = "\<lambda>a b. same_shape (heap a) (heap b)"])
       (auto simp: same_shape_refl grid_remove_row_def intro: same_shape_trans)
  then show ?thesis by (simp add: HideAll hide_all_def)
next
  case (UpdateEditor i wd pname propdescr)
  then show ?thesis by (simp add: same_shape_update_editor same_shape_refl)
next
  case (UserInput i v)
  then show ?thesis by (simp add: same_shape_refl)
next
  case (PropertyChanged i)
  then show ?thesis
    by (cases "priv_current w") (simp_all add: on_change_cb_def on_property_changed_def same_shape_refl)
qed

lemma same_shape_run: "same_shape (heap w) (heap (run env ops w))"
  unfolding run_def
proof (induction ops arbitrary: w)
  case Nil
  show ?case by (simp add: same_shape_refl)
next
  case (Cons op ops)
  from same_shape_trans[OF same_shape_exec[of w env op] Cons.IH[of "after (exec env op w)"]]
  show ?case by simp
qed

lemma same_shape_deref:
  assumes "same_shape h h'" and "deref h v = Some d"
  shows "\<exists>d'. deref h' v = Some d' \<and> (distinct (map fst d) \<longrightarrow> distinct (map fst d')) \<and>
           (\<forall>k. k \<noteq> ''mode'' \<longrightarrow> k \<noteq> ''placeholder'' \<longrightarrow> map_of d' k = map_of d k)"
proof -
  from assms(2) obtain a where v: "v = PRef a" and a: "map_of h a = Some d"
    by (auto simp: deref_def split: pyval.splits)
  from assms(1) a show ?thesis unfolding same_shape_def by (simp add: v deref_def)
qed

lemma descr_ok_same_shape:
  assumes "descr_ok h cname pdv" and "same_shape h h'"
    and "cname \<noteq> ''mode''" and "cname \<noteq> ''placeholder''"
  shows "descr_ok h' cname pdv"
proof -
  from assms(1) obtain pd where pd: "deref h pdv = Some pd"
    and pp: "\<And>v. map_of pd ''params'' = Some v \<Longrightarrow> deref h v \<noteq> None"
    and po: "\<And>ov. map_of pd cname = Some ov \<Longrightarrow>
           \<exists>od. deref h ov = Some od \<and> distinct (map fst od) \<and>
              (\<forall>v. map_of od ''params'' = Some v \<longrightarrow> deref h v \<noteq> None)"
    unfolding descr_ok_def by blast
  have keep: "deref h' v \<noteq> None" if "deref h v \<noteq> None" for v
    using that same_shape_deref[OF assms(2), of v] by auto
  from same_shape_deref[OF assms(2) pd] obtain pd' where pd': "deref h' pdv = Some pd'"
    and same: "\<And>k. k \<noteq> ''mode'' \<Longrightarrow> k \<noteq> ''placeholder'' \<Longrightarrow> map_of pd' k = map_of pd k"
    by blast
  have p1: "deref h' v \<noteq> None" if "map_of pd' ''params'' = Some v" for v
    using that same[of "''params''"] pp[of v] keep by simp
  have p2: "\<exists>od. deref h' ov = Some od \<and> distinct (map fst od) \<and>
              (\<forall>v. map_of od ''params'' = Some v \<longrightarrow> deref h' v \<noteq> None)"
    if "map_of pd' cname = Some ov" for ov
  proof -
    from that same[OF assms(3,4)] have "map_of pd cname = Some ov" by simp
    from po[OF this] obtain od where od: "deref h ov = Some od" "distinct (map fst od)"
      "\<forall>v. map_of od ''params'' = Some v \<longrightarrow> deref h v \<noteq> None"
      by blast
    from same_shape_deref[OF assms(2) od(1)] od(2) obtain od' where
      od': "deref h' ov = Some od'" "distinct (map fst od')"
      "\<And>k. k \<noteq> ''mode'' \<Longrightarrow> k \<noteq> ''placeholder'' \<Longrightarrow> map_of od' k = map_of od k"
      by blast
    have "deref h' v \<noteq> None" if "map_of od' ''params'' = Some v" for v
      using that od'(3)[of "''params''"] od(3) keep by simp
    with od'(1,2) show ?thesis by blast
  qed
  show ?thesis unfolding descr_ok_def using pd' p1 p2 by blast
qed

lemma deref_SomeE:
  assumes "deref h v \<noteq> None"
  obtains p d where "v = PRef p" "map_of h p = Some d"
  using assms by (auto simp: deref_def split: pyval.splits)

lemma update_editor_total:
  assumes "descr_ok (heap w) (classname wd) propdescr"
  shows "\<exists>w'. update_editor i wd pname propdescr w = Ok w'"
proof -
  from assms obtain pd where pd: "deref (heap w) propdescr = Some pd"
    and pp: "\<And>v. map_of pd ''params'' = Some v \<Longrightarrow> deref (heap w) v \<noteq> None"
    and po: "\<And>ov. map_of pd (classname wd) = Some ov \<Longrightarrow>
           \<exists>od. deref (heap w) ov = Some od \<and> distinct (map fst od) \<and>
              (\<forall>v. map_of od ''params'' = Some v \<longrightarrow> deref (heap w) v \<noteq> None)"
    unfolding descr_ok_def by blast
  have dm: "\<exists>m. default_mode_of (heap w) pd = Inr m"
    using pp by (auto simp: default_mode_of_def split: option.splits)
  have cm: "\<exists>pdescr. class_merge (heap w) (classname wd) pd = Inr pdescr \<and>
              (\<forall>v. map_of pdescr ''params'' = Some v \<longrightarrow> deref (heap w) v \<noteq> None)"
  proof (cases "map_of pd (classname wd)")
    case None
    then show ?thesis using pp by (simp add: class_merge_def)
  next
    case (Some ov)
    from po[OF Some] obtain od where od: "deref (heap w) ov = Some od" "distinct (map fst od)"
      "\<forall>v. map_of od ''params'' = Some v \<longrightarrow> deref (heap w) v \<noteq> None"
      by blast
    have "deref (heap w) v \<noteq> None" if "map_of (dict_merge pd od) ''params'' = Some v" for v
      using that map_of_dict_merge[OF od(2), of pd "''params''"] od(3) pp
      by (auto split: option.splits)
    then show ?thesis using Some od(1) by (simp add: class_merge_def)
  qed
  from dm obtain m where m: "default_mode_of (heap w) pd = Inr m" by blast
  from cm obtain pdescr where c: "class_merge (heap w) (classname wd) pd = Inr pdescr"
    and cp: "\<And>v. map_of pdescr ''params'' = Some v \<Longrightarrow> deref (heap w) v \<noteq> None"
    by blast
  have "\<exists>ps. get_params (heap w) pdescr = Inr ps"
  proof (cases "map_of pdescr ''params''")
    case None
    then show ?thesis by (simp add: get_params_def)
  next
    case (Some v)
    from cp[OF Some] obtain p d where "v = PRef p" "map_of (heap w) p = Some d"
      by (rule deref_SomeE)
    with Some show ?thesis by (simp add: get_params_def)
  qed
  then obtain ps where g: "get_params (heap w) pdescr = Inr ps" by blast
  show ?thesis using pd m c g by (simp add: update_editor_def Let_def)
qed

lemma edit_names_total:
  assumes "\<forall>name\<in>set names. \<exists>pdv. map_of gp name = Some pdv \<and> descr_ok (heap w) (classname wd) pdv"
    and "\<forall>name\<in>set names. map_of (propbag w) (g @ name) \<noteq> None"
    and "\<forall>name\<in>set names. \<exists>b. is_shown cd g a name = Inr b"
    and "classname wd \<noteq> ''mode''" and "classname wd \<noteq> ''placeholder''"
  shows "\<exists>w'. edit_names cd wd g a gp names w = Ok w'"
  using assms(1,2,3)
proof (induction names arbitrary: w)
  case Nil
  show ?case by simp
next
  case (Cons name names)
  from Cons.prems(1) obtain pdv where pdv: "map_of gp name = Some pdv"
    and ok: "descr_ok (heap w) (classname wd) pdv"
    by auto
  from Cons.prems(2) obtain i where i: "map_of (propbag w) (g @ name) = Some i" by auto
  from Cons.prems(3) obtain b where b: "is_shown cd g a name = Inr b" by auto
  have rest: "\<exists>w'. edit_names cd wd g a gp names w1 = Ok w'"
    if sh: "same_shape (heap w) (heap w1)" and pb: "propbag w1 = propbag w" for w1
  proof (rule Cons.IH)
    show "\<forall>name\<in>set names. \<exists>pdv. map_of gp name = Some pdv \<and> descr_ok (heap w1) (classname wd) pdv"
      using Cons.prems(1) descr_ok_same_shape[OF _ sh assms(4,5)] by fastforce
    show "\<forall>name\<in>set names. map_of (propbag w1) (g @ name) \<noteq> None"
      using Cons.prems(2) by (simp add: pb)
    show "\<forall>name\<in>set names. \<exists>b. is_shown cd g a name = Inr b"
      using Cons.prems(3) by simp
  qed
  show ?case
  proof (cases b)
    case False
    have "\<exists>w'. edit_names cd wd g a gp names (grid_remove_row i w) = Ok w'"
      by (rule rest) (simp_all add: grid_remove_row_def same_shape_refl)
    then show ?thesis using pdv i b False by simp
  next
    case True
    from update_editor_total[OF ok, of i name] obtain wu where
      u: "update_editor i wd name pdv w = Ok wu" by blast
    have "same_shape (heap w) (heap wu)"
      using same_shape_update_editor[of w i wd name pdv] u by simp
    moreover have "propbag wu = propbag w"
      using skeleton_update_editor[of i wd name pdv w] u by (simp add: skeleton_def)
    ultimately have "\<exists>w'. edit_names cd wd g a gp names (grid_row i wu) = Ok w'"
      by (intro rest) (simp_all add: grid_row_def)
    then show ?thesis using pdv i b True u by simp
  qed
qed

lemma edit_names_shape:
  "same_shape (heap w) (heap (after (edit_names cd wd g a gp names w))) \<and>
   propbag (after (edit_names cd wd g a gp names w)) = propbag w"
  by (rule edit_names_rel[where R = "\<lambda>x y. same_shape (heap x) (heap y) \<and> propbag y = propbag x"])
     (auto simp: same_shape_refl grid_row_def grid_remove_row_def same_shape_update_editor
           skeleton_bag(1)[OF skeleton_update_editor] intro: same_shape_trans)

lemma edit_groups_total:
  assumes "\<forall>(g, a, names, gp)\<in>set gs. \<forall>name\<in>set names.
             (\<exists>pdv. map_of gp name = Some pdv \<and> descr_ok (heap w) (classname wd) pdv) \<and>
             map_of (propbag w) (g @ name) \<noteq> None \<and> (\<exists>b. is_shown cd g a name = Inr b)"
    and "classname wd \<noteq> ''mode''" and "classname wd \<noteq> ''placeholder''"
  shows "\<exists>w'. edit_groups cd wd gs w = Ok w'"
  using assms(1)
proof (induction gs arbitrary: w)
  case Nil
  show ?case by simp
next
  case (Cons grp gs)
  obtain g a names gp where grp: "grp = (g, a, names, gp)" by (cases grp) auto
  have "\<exists>w1. edit_names cd wd g a gp names w = Ok w1"
    by (rule edit_names_total[OF _ _ _ assms(2,3)]) (use Cons.prems grp in auto)
  then obtain w1 where first: "edit_names cd wd g a gp names w = Ok w1" by blast
  from edit_names_shape[of w cd wd g a gp names] first
  have sh: "same_shape (heap w) (heap w1)" and pb: "propbag w1 = propbag w" by simp_all
  have one: "(\<exists>pdv. map_of gp' name = Some pdv \<and> descr_ok (heap w1) (classname wd) pdv) \<and>
       map_of (propbag w1) (g' @ name) \<noteq> None \<and> (\<exists>b. is_shown cd g' a' name = Inr b)"
    if mem: "(g', a', names', gp') \<in> set gs" and nm: "name \<in> set names'" for g' a' names' gp' name
  proof -
    from Cons.prems mem nm have
      "(\<exists>pdv. map_of gp' name = Some pdv \<and> descr_ok (heap w) (classname wd) pdv) \<and>
       map_of (propbag w) (g' @ name) \<noteq> None \<and> (\<exists>b. is_shown cd g' a' name = Inr b)"
      by fastforce
    then show ?thesis using descr_ok_same_shape[OF _ sh assms(2,3)] pb by auto
  qed
  have "\<exists>w'. edit_groups cd wd gs w1 = Ok w'"
    by (rule Cons.IH) (use one in fast)
  then show ?case using grp first by simp
qed

lemma tables_ok_same_shape:
  assumes "tables_ok env h cname" and "same_shape h h'"
  shows "tables_ok env h' cname"
proof -
  from assms(1) have c: "cname \<noteq> ''mode''" "cname \<noteq> ''placeholder''"
    and d: "\<forall>(g, a, names, gp)\<in>set (groups env). \<forall>name\<in>set names.
        \<exists>pdv. map_of gp name = Some pdv \<and> descr_ok h cname pdv"
    unfolding tables_ok_def by blast+
  have "\<forall>(g, a, names, gp)\<in>set (groups env). \<forall>name\<in>set names.
        \<exists>pdv. map_of gp name = Some pdv \<and> descr_ok h' cname pdv"
    using d descr_ok_same_shape[OF _ assms(2) c] by fastforce
  with c show ?thesis unfolding tables_ok_def by blast
qed

lemma group_key_mem:
  assumes "(g, a, names, gp) \<in> set (groups env)" and "name \<in> set names"
  shows "g @ name \<in> group_keys env"
  using assms unfolding groups_def group_keys_def by auto

lemma is_shown_class_ok:
  assumes "(g, a, names, gp) \<in> set (groups env)" and "class_ok cd"
  shows "\<exists>b. is_shown cd g a name = Inr b"
  using assms unfolding groups_def class_ok_def is_shown_def by auto

lemma edit_total:
  assumes "panel_inv env w" and "CLASS_MAP env (classname wd) = Some cd"
    and "class_ok cd" and "tables_ok env (heap w) (classname wd)"
  shows "\<exists>w'. edit env wd w = Ok w'"
proof -
  define w1 where "w1 = w\<lparr>priv_current := Some wd\<rparr>"
  from assms(1) have keys: "fst ` set (propbag w) = group_keys env" by (simp add: panel_inv_def)
  from assms(4) have c: "classname wd \<noteq> ''mode''" "classname wd \<noteq> ''placeholder''"
    and d: "\<forall>(g, a, names, gp)\<in>set (groups env). \<forall>name\<in>set names.
        \<exists>pdv. map_of gp name = Some pdv \<and> descr_ok (heap w) (classname wd) pdv"
    unfolding tables_ok_def by blast+
  have one: "(\<exists>pdv. map_of gp name = Some pdv \<and> descr_ok (heap w1) (classname wd) pdv) \<and>
       map_of (propbag w1) (g @ name) \<noteq> None \<and> (\<exists>b. is_shown cd g a name = Inr b)"
    if mem: "(g, a, names, gp) \<in> set (groups env)" and nm: "name \<in> set names" for g a names gp name
  proof -
    from d mem nm have 1: "\<exists>pdv. map_of gp name = Some pdv \<and> descr_ok (heap w1) (classname wd) pdv"
      by (fastforce simp: w1_def)
    from group_key_mem[OF mem nm] keys have "g @ name \<in> fst ` set (propbag w)" by simp
    then have 2: "map_of (propbag w1) (g @ name) \<noteq> None"
      using map_of_eq_None_iff[of "propbag w" "g @ name"] by (simp add: w1_def)
    from is_shown_class_ok[OF mem assms(3)] 1 2 show ?thesis by blast
  qed
  have "\<exists>w2. edit_groups cd wd (groups env) w1 = Ok w2"
    by (rule edit_groups_total[OF _ c]) (use one in fast)
  then show ?thesis using assms(2) by (auto simp: edit_def w1_def)
qed

lemma heap_create_names:
  "create_names env gcode propdescr plist w = Inr w' \<Longrightarrow> heap w' = heap w"
proof (induction plist arbitrary: w)
  case Nil
  then show ?case by simp
next
  case (Cons name plist)
  from Cons.prems obtain w1 where "create_names env gcode propdescr plist w1 = Inr w'"
    and "heap w1 = heap w"
    by (auto split: option.splits sum.splits)
  with Cons.IH show ?case by simp
qed

lemma heap_create_groups:
  "create_groups env gs w = Inr w' \<Longrightarrow> heap w' = heap w"
proof (induction gs arbitrary: w)
  case Nil
  then show ?case by simp
next
  case (Cons grp gs)
  obtain gcode gname plist propdescr where grp: "grp = (gcode, gname, plist, propdescr)"
    by (cases grp) auto
  from Cons.prems grp obtain w1 where
    1: "create_names env gcode propdescr plist (w\<lparr>headers := headers w @ [gname]\<rparr>) = Inr w1"
    and 2: "create_groups env gs w1 = Inr w'"
    by (auto split: sum.splits)
  from heap_create_names[OF 1] Cons.IH[OF 2] show ?case by simp
qed

lemma heap_hide_all: "heap (hide_all w) = heap w"
proof -
  have "heap (fold (\<lambda>(_, i). grid_remove_row i) (propbag w) (w\<lparr>current := Some None\<rparr>))
        = heap (w\<lparr>current := Some None\<rparr>)"
    by (rule fold_hide_rel[where R = "\<lambda>a b. heap b = heap a"])
       (simp_all add: grid_remove_row_def)
  then show ?thesis by (simp add: hide_all_def)
qed

lemma heap_init:
  assumes "PropertiesEditor_init env h = Inr w0"
  shows "heap w0 = h"
proof -
  from assms obtain w where
    c: "create_properties env \<lparr>heap = h, headers = [], rows = [], propbag = [], priv_current = None,
              current = None, setter_calls = [], reposition_calls = 0\<rparr> = Inr w"
    and w: "w0 = hide_all w"
    by (auto simp: PropertiesEditor_init_def split: sum.splits)
  from heap_create_groups[OF c[unfolded create_properties_def]] w show ?thesis
    by (simp add: heap_hide_all)
qed

lemma edit_Ok_gridded:
  assumes "PropertiesEditor_init env h = Inr w0" and "w = run env ops w0"
    and "CLASS_MAP env (classname wd) = Some cd"
    and "edit env wd w = Ok w'"
  shows "propbag w' = propbag w \<and> map row_identity (rows w') = map row_identity (rows w) \<and>
         (\<forall>(k, i)\<in>set (propbag w').
            i < length (rows w') \<and>
            gridded w' i = (k \<in> shown_keys env cd, k \<in> shown_keys env cd))"
proof -
  have inv: "panel_inv env w" by (rule reachable_panel_inv[OF assms(1,2)])
  then have b: "bag_inv w" and keys: "fst ` set (propbag w) = group_keys env"
    by (simp_all add: panel_inv_def)
  define w1 where "w1 = w\<lparr>priv_current := Some wd\<rparr>"
  from assms(3,4) obtain w2 where
    g: "edit_groups cd wd (groups env) w1 = Ok w2"
    and w': "w' = w2\<lparr>reposition_calls := Suc (reposition_calls w2)\<rparr>"
    by (auto simp: edit_def w1_def split: outcome.splits)
  have b1: "bag_inv w1" by (rule bag_inv_skeleton[OF _ b]) (simp add: w1_def skeleton_def)
  have pb1: "propbag w1 = propbag w" by (simp add: w1_def)
  have sk: "skeleton w' = skeleton w" using skeleton_edit[of env wd w] assms(4) by simp
  note pb = skeleton_bag(1)[OF sk] and len = skeleton_bag(2)[OF sk]
  have gr: "gridded w' j = gridded w2 j" for j by (simp add: w' gridded_def)
  note G = edit_groups_Ok[OF g b1 groups_codes]
  have row: "i < length (rows w') \<and>
             gridded w' i = (k \<in> shown_keys env cd, k \<in> shown_keys env cd)"
    if mem: "(k, i) \<in> set (propbag w)" for k i
  proof -
    from b mem have mo: "map_of (propbag w) k = Some i" by (simp add: bag_inv_def)
    from bag_inv_mem[OF b mem] have i: "i < length (rows w)" by simp
    from mem keys have "k \<in> group_keys env" by force
    from group_keys_cases[OF this] obtain g a names gp name where
      grp: "(g, a, names, gp) \<in> set (groups env)" and nm: "name \<in> set names" and k: "k = g @ name"
      by blast
    from G grp nm obtain pd i' b' where
      f: "map_of (propbag w1) (g @ name) = Some i'" "is_shown cd g a name = Inr b'"
         "gridded w2 i' = (b', b')"
      by fastforce
    from f(1) mo k pb1 have "i' = i" by simp
    moreover from is_shown_declared[OF grp nm f(2)] k have "b' \<longleftrightarrow> k \<in> shown_keys env cd" by simp
    ultimately show ?thesis using f(3) i len gr by simp
  qed
  from sk have "map row_identity (rows w') = map row_identity (rows w)" by (simp add: skeleton_def)
  then show ?thesis using pb row by auto
qed

section \<open>The instance, evaluated\<close>

lemmas ex_eval =
  edit_def groups_def is_shown_def update_editor_def default_mode_of_def class_merge_def
  get_params_def params_setitem_def resolve_help_def resolve_value_def dict_merge_def
  grid_row_def grid_remove_row_def hide_all_def on_change_cb_def on_property_changed_def
  ex_env_def ex_heap_def ex_label_def ex_frame_def deref_def Let_def

lemma ex_init: "PropertiesEditor_init ex_env ex_heap = Inr ex_w0"
  by (simp add: PropertiesEditor_init_def create_properties_def create_editor_def hide_all_def
      grid_remove_row_def ex_env_def ex_heap_def ex_w0_def deref_def)

lemma ex_edit_label: "edit ex_env ex_label ex_w0 = Ok ex_w1"
  by (simp add: ex_eval ex_w0_def ex_w1_def)

lemma ex_user_input: "exec ex_env (UserInput 2 (PStr ''new text'')) ex_w1 = Ok ex_w2"
  by (simp add: ex_w1_def ex_w2_def)

lemma ex_edit_frame: "edit ex_env ex_frame ex_w1 = Ok ex_w3"
  by (simp add: ex_eval ex_w1_def ex_w3_def)

lemma ex_run_w2: "ex_w2 = run ex_env [Edit ex_label, UserInput 2 (PStr ''new text'')] ex_w0"
  using ex_user_input by (simp add: run_def ex_edit_label)

text \<open>One call of \<^verbatim>\<open>update_editor\<close> for the property \<^verbatim>\<open>text\<close> of the label.\<close>

lemma ex_text_descr:
  "deref (heap ex_w0) (PRef 4) =
     Some [(''editor'', PStr ''dynamic''), (''params'', PRef 5), (''help'', PRef 6),
           (''default'', PStr ''hello''), (''ttk.Label'', PRef 7)]"
  by (simp add: ex_w0_def ex_heap_def deref_def)

lemma ex_text_merged:
  "class_merge (heap ex_w0) (classname ex_label)
     [(''editor'', PStr ''dynamic''), (''params'', PRef 5), (''help'', PRef 6),
      (''default'', PStr ''hello''), (''ttk.Label'', PRef 7)] =
   Inr [(''editor'', PStr ''dynamic''), (''params'', PRef 8), (''help'', PRef 6),
        (''default'', PStr ''hello''), (''ttk.Label'', PRef 7)]"
  by (simp add: class_merge_def dict_merge_def deref_def ex_w0_def ex_heap_def ex_label_def)

lemma ex_text_update:
  "update_editor 2 ex_label ''text'' (PRef 4) ex_w0 =
     Ok (after (update_editor 2 ex_label ''text'' (PRef 4) ex_w0))"
  by (simp add: ex_eval ex_w0_def)

section \<open>The change callback\<close>

text \<open>
  C5. In a constructed panel, after any run, with a widget descriptor selected: when the
  editor registered for a property (group code \<open>gcode\<close>, name \<open>name\<close>) fires
  \<^verbatim>\<open><<PropertyChanged>>\<close>, the callback returns normally and the only change is one more
  call of the selected descriptor's property setter, with the property's name and the
  editor's current value as it is.
\<close>

theorem property_changed_one_setter_call:
  assumes "PropertiesEditor_init env h = Inr w0" and "w = run env ops w0"
    and "(gcode @ name, i) \<in> set (propbag w)" and "length gcode = 2"
    and "priv_current w = Some wd"
  shows "exec env (PropertyChanged i) w =
           Ok (w\<lparr>setter_calls := setter_calls w @ [(wd, name, editor_value (snd (rows w ! i)))]\<rparr>)"
proof -
  have "panel_inv env w"
    using panel_inv_run[OF panel_inv_init[OF assms(1)]] assms(2) by simp
  then have "bag_inv w" by (simp add: panel_inv_def)
  from bag_inv_mem[OF this assms(3)] assms(4)
  have i: "i < length (rows w)" and n: "editor_pname (snd (rows w ! i)) = name" by simp_all
  show ?thesis using i n on_change_cb_Some[OF assms(5), of i] by simp
qed

theorem property_changed_one_setter_call_witness:
  "PropertiesEditor_init ex_env ex_heap = Inr ex_w0 \<and>
   ex_w2 = run ex_env [Edit ex_label, UserInput 2 (PStr ''new text'')] ex_w0 \<and>
   (''01'' @ ''text'', 2) \<in> set (propbag ex_w2) \<and> length ''01'' = 2 \<and>
   priv_current ex_w2 = Some ex_label \<and>
   exec ex_env (PropertyChanged 2) ex_w2 =
     Ok (ex_w2\<lparr>setter_calls := [(ex_label, ''text'', PStr ''new text'')]\<rparr>)"
proof -
  have m: "(''01'' @ ''text'', 2) \<in> set (propbag ex_w2)" by (simp add: ex_w2_def)
  have c: "priv_current ex_w2 = Some ex_label" by (simp add: ex_w2_def)
  have "exec ex_env (PropertyChanged 2) ex_w2 =
          Ok (ex_w2\<lparr>setter_calls := setter_calls ex_w2 @
                [(ex_label, ''text'', editor_value (snd (rows ex_w2 ! 2)))]\<rparr>)"
    by (rule property_changed_one_setter_call[OF ex_init ex_run_w2 m _ c]) simp
  moreover have "setter_calls ex_w2 = [] \<and> editor_value (snd (rows ex_w2 ! 2)) = PStr ''new text''"
    by (simp add: ex_w2_def)
  ultimately show ?thesis using ex_init ex_run_w2 m c by simp
qed

text \<open>
  C9. \<^verbatim>\<open>hide_all\<close> assigns the attribute \<^verbatim>\<open>current\<close> and leaves \<^verbatim>\<open>_current\<close> as it
  was. So after \<^verbatim>\<open>edit(wd)\<close> (also one that raised) and \<^verbatim>\<open>hide_all\<close>, and whatever
  happens next short of another \<^verbatim>\<open>edit\<close>, an editor that fires \<^verbatim>\<open><<PropertyChanged>>\<close>
  still calls the property setter of \<open>wd\<close>.
\<close>

theorem hide_all_keeps_current:
  assumes "w1 = after (edit env wd w)" and "\<forall>op\<in>set ops. \<forall>wd'. op \<noteq> Edit wd'"
    and "w2 = run env (HideAll # ops) w1" and "i < length (rows w2)"
  shows "priv_current (hide_all w1) = priv_current w1 \<and> priv_current (hide_all w1) = Some wd \<and>
         current (hide_all w1) = Some None \<and>
         exec env (PropertyChanged i) w2 =
           Ok (w2\<lparr>setter_calls := setter_calls w2 @
                 [(wd, editor_pname (snd (rows w2 ! i)), editor_value (snd (rows w2 ! i)))]\<rparr>)"
proof -
  have c1: "priv_current w1 = Some wd" by (simp add: assms(1) priv_current_edit)
  have "\<forall>op\<in>set (HideAll # ops). \<forall>wd'. op \<noteq> Edit wd'" using assms(2) by simp
  from priv_current_run[OF this, of env w1] have c2: "priv_current w2 = Some wd"
    using c1 assms(3) by simp
  show ?thesis
    using c1 c2 assms(4) on_change_cb_Some[OF c2, of i]
    by (simp add: priv_current_hide_all current_hide_all)
qed

theorem hide_all_keeps_current_witness:
  "ex_w1 = after (edit ex_env ex_label ex_w0) \<and>
   2 < length (rows (run ex_env [HideAll, UserInput 2 (PStr ''late'')] ex_w1)) \<and>
   priv_current (hide_all ex_w1) = Some ex_label \<and>
   current (hide_all ex_w1) = Some None \<and>
   setter_calls (after (exec ex_env (PropertyChanged 2)
                   (run ex_env [HideAll, UserInput 2 (PStr ''late'')] ex_w1))) =
     [(ex_label, ''text'', PStr ''late'')]"
proof -
  define w2 where "w2 = run ex_env [HideAll, UserInput 2 (PStr ''late'')] ex_w1"
  have e: "ex_w1 = after (edit ex_env ex_label ex_w0)" by (simp add: ex_edit_label)
  have ops: "\<forall>op\<in>set [UserInput 2 (PStr ''late'')]. \<forall>wd'. op \<noteq> Edit wd'" by simp
  have ev: "length (rows w2) = 4 \<and> setter_calls w2 = [] \<and>
            editor_pname (snd (rows w2 ! 2)) = ''text'' \<and>
            editor_value (snd (rows w2 ! 2)) = PStr ''late''"
    by (simp add: w2_def run_def hide_all_def grid_remove_row_def ex_w1_def)
  then have len: "2 < length (rows w2)" by simp
  note t = hide_all_keeps_current[OF e ops w2_def len]
  from t have a: "priv_current (hide_all ex_w1) = Some ex_label" by blast
  from t have b: "current (hide_all ex_w1) = Some None" by blast
  from t have "exec ex_env (PropertyChanged 2) w2 =
      Ok (w2\<lparr>setter_calls := setter_calls w2 @
            [(ex_label, editor_pname (snd (rows w2 ! 2)), editor_value (snd (rows w2 ! 2)))]\<rparr>)"
    by blast
  then have c: "setter_calls (after (exec ex_env (PropertyChanged 2) w2)) =
      [(ex_label, ''text'', PStr ''late'')]"
    using ev by simp
  show ?thesis using e len a b c unfolding w2_def by blast
qed

section \<open>The property bag is fixed\<close>

text \<open>
  C7. From construction on, whatever is done to the panel (\<^verbatim>\<open>edit\<close>, \<^verbatim>\<open>hide_all\<close>,
  \<^verbatim>\<open>update_editor\<close>, user input, change callbacks, with or without exceptions), the
  property bag stays what construction made it: its keys are the keys of the four groups
  and each key refers to the pair it referred to. No pair is created or destroyed, and
  the label text, the kind of the editor and the property bound to it stay the same;
  only what is shown changes.
\<close>

theorem propbag_fixed_after_construction:
  assumes "PropertiesEditor_init env h = Inr w0"
  shows "propbag (run env ops w0) = propbag w0 \<and>
         fst ` set (propbag (run env ops w0)) = group_keys env \<and>
         length (rows (run env ops w0)) = length (rows w0) \<and>
         map row_identity (rows (run env ops w0)) = map row_identity (rows w0)"
proof -
  have s: "skeleton (run env ops w0) = skeleton w0" by (rule skeleton_run)
  then have m: "map row_identity (rows (run env ops w0)) = map row_identity (rows w0)"
    and p: "propbag (run env ops w0) = propbag w0"
    by (simp_all add: skeleton_def)
  from m have "length (rows (run env ops w0)) = length (rows w0)" by (metis length_map)
  moreover have "fst ` set (propbag w0) = group_keys env"
    using panel_inv_init[OF assms] by (simp add: panel_inv_def)
  ultimately show ?thesis using m p by simp
qed

theorem propbag_fixed_after_construction_witness:
  "PropertiesEditor_init ex_env ex_heap = Inr ex_w0 \<and>
   propbag (run ex_env [Edit ex_label, PropertyChanged 2, HideAll, Edit ex_frame] ex_w0) =
     [(''00class'', 0), (''00id'', 1), (''01text'', 2), (''02width'', 3)] \<and>
   length (rows (run ex_env [Edit ex_label, PropertyChanged 2, HideAll, Edit ex_frame] ex_w0)) = 4"
  using propbag_fixed_after_construction[OF ex_init, of "[Edit ex_label, PropertyChanged 2, HideAll, Edit ex_frame]"]
    ex_init
  by (simp add: ex_w0_def)
section \<open>The value shown by an editor\<close>



section \<open>The tooltip\<close>

text \<open>
  C3. When the help entry of the descriptor (merged with the override of the widget's
  class) is a dict, the tooltip text that \<^verbatim>\<open>update_editor\<close> sets on the label is the
  value of the first item, in the dict's order, whose key is a prefix of the class name;
  it is the empty string when no key is a prefix of the class name.
\<close>

theorem help_first_prefix_match:
  assumes "update_editor i wd pname propdescr w = Ok w'" and "i < length (rows w)"
    and "deref (heap w) propdescr = Some pdescr0"
    and "class_merge (heap w) (classname wd) pdescr0 = Inr pdescr"
    and "map_of pdescr ''help'' = Some hv" and "deref (heap w') hv = Some items"
  shows "(\<exists>n<length items. prefix (fst (items ! n)) (classname wd) \<and>
            (\<forall>m<n. \<not> prefix (fst (items ! m)) (classname wd)) \<and>
            tooltip_text (fst (rows w' ! i)) = snd (items ! n)) \<or>
         ((\<forall>kv\<in>set items. \<not> prefix (fst kv) (classname wd)) \<and>
            tooltip_text (fst (rows w' ! i)) = PStr '''')"
proof -
  have "tooltip_text (fst (rows w' ! i)) = help_items (classname wd) items"
    using update_editor_row(1)[OF assms(1-4)] assms(5,6) by (simp add: resolve_help_def)
  with help_items_first_match[of items "classname wd"] show ?thesis by simp
qed
theorem help_first_prefix_match_witness:
  "2 < length (rows ex_w0) \<and>
   deref (heap (after (update_editor 2 ex_label ''text'' (PRef 4) ex_w0))) (PRef 6) =
     Some [(''tk.'', PStr ''tk help''), (''ttk.'', PStr ''ttk help''), (''ttk.Label'', PStr ''label help'')] \<and>
   tooltip_text (fst (rows (after (update_editor 2 ex_label ''text'' (PRef 4) ex_w0)) ! 2)) =
     PStr ''ttk help''"
proof -
  define t where "t = after (update_editor 2 ex_label ''text'' (PRef 4) ex_w0)"
  have ok: "update_editor 2 ex_label ''text'' (PRef 4) ex_w0 = Ok t"
    unfolding t_def by (rule ex_text_update)
  have len: "2 < length (rows ex_w0)" by (simp add: ex_w0_def)
  have hv: "map_of [(''editor'', PStr ''dynamic''), (''params'', PRef 8), (''help'', PRef 6),
        (''default'', PStr ''hello''), (''ttk.Label'', PRef 7)] ''help'' = Some (PRef 6)"
    by simp
  have items: "deref (heap t) (PRef 6) =
     Some [(''tk.'', PStr ''tk help''), (''ttk.'', PStr ''ttk help''), (''ttk.Label'', PStr ''label help'')]"
    by (simp add: t_def ex_eval ex_w0_def)
  have cn: "classname ex_label = ''ttk.Label''" by (simp add: ex_label_def)
  note T = help_first_prefix_match[OF ok len ex_text_descr ex_text_merged hv items]
  have "tooltip_text (fst (rows t ! 2)) = PStr ''ttk help''"
    using T unfolding cn by (auto simp: less_Suc_eq numeral_3_eq_3 nth_Cons')
  then show ?thesis using len items unfolding t_def by simp
qed

section \<open>Class-specific parameters\<close>



section \<open>The shared parameter dicts\<close>



section \<open>Exceptions of edit\<close>


section \<open>hide\_all\<close>

text \<open>
  C4. In a constructed panel, after any run (any sequence of \<^verbatim>\<open>edit\<close> calls and other
  operations, with or without exceptions), \<^verbatim>\<open>hide_all\<close> leaves the property bag as it
  is and leaves no registered pair in the grid: for every key of the property bag, the
  pair exists and neither its label nor its editor is shown.
\<close>


theorem hide_all_hides_every_registered:
  assumes "PropertiesEditor_init env h = Inr w0" and "w = run env ops w0"
  shows "propbag (hide_all w) = propbag w \<and>
         (\<forall>(k, i)\<in>set (propbag (hide_all w)).
            i < length (rows (hide_all w)) \<and> gridded (hide_all w) i = (False, False))"
proof -
  have b: "bag_inv w" using reachable_panel_inv[OF assms] by (simp add: panel_inv_def)
  have sk: "skeleton (hide_all w) = skeleton w" by (rule skeleton_hide_all)
  note pb = skeleton_bag(1)[OF sk] and len = skeleton_bag(2)[OF sk]
  have "i < length (rows (hide_all w)) \<and> gridded (hide_all w) i = (False, False)"
    if "(k, i) \<in> set (propbag w)" for k i
  proof -
    from bag_inv_mem[OF b that] have i: "i < length (rows w)" by simp
    have "i \<in> snd ` set (propbag w)" using that by force
    then have "gridded (hide_all w) i = (False, False)"
      using i by (simp add: hide_all_def gridded_fold_hide)
    with i len show ?thesis by simp
  qed
  then show ?thesis using pb by auto
qed

theorem hide_all_hides_every_registered_witness:
  "PropertiesEditor_init ex_env ex_heap = Inr ex_w0 \<and>
   ex_w2 = run ex_env [Edit ex_label, UserInput 2 (PStr ''new text'')] ex_w0 \<and>
   gridded ex_w2 0 = (True, True) \<and> gridded ex_w2 2 = (True, True) \<and>
   propbag (hide_all ex_w2) = [(''00class'', 0), (''00id'', 1), (''01text'', 2), (''02width'', 3)] \<and>
   gridded (hide_all ex_w2) 0 = (False, False) \<and> gridded (hide_all ex_w2) 1 = (False, False) \<and>
   gridded (hide_all ex_w2) 2 = (False, False) \<and> gridded (hide_all ex_w2) 3 = (False, False)"
proof -
  note T = hide_all_hides_every_registered[OF ex_init ex_run_w2]
  from T have pb: "propbag (hide_all ex_w2) = [(''00class'', 0), (''00id'', 1), (''01text'', 2), (''02width'', 3)]"
    by (simp add: ex_w2_def)
  from T have "\<forall>(k, i)\<in>set (propbag (hide_all ex_w2)). gridded (hide_all ex_w2) i = (False, False)"
    by fast
  then have "gridded (hide_all ex_w2) 0 = (False, False) \<and> gridded (hide_all ex_w2) 1 = (False, False) \<and>
   gridded (hide_all ex_w2) 2 = (False, False) \<and> gridded (hide_all ex_w2) 3 = (False, False)"
    unfolding pb by simp
  moreover have "gridded ex_w2 0 = (True, True) \<and> gridded ex_w2 2 = (True, True)"
    by (simp add: gridded_def ex_w2_def)
  ultimately show ?thesis using ex_init ex_run_w2 pb by blast
qed

section \<open>What edit shows\<close>

text \<open>
  C1. In a constructed panel, after any run, for a widget descriptor whose class is
  registered: if the tables given at construction are well formed for the class,
  \<^verbatim>\<open>edit(wd)\<close> returns; and whenever it returns, the property bag is unchanged and every
  pair is the pair it was (so a hidden pair is not destroyed), and for every key of the
  property bag the label and the editor are in the grid if the key is a required property
  or a standard, specific or custom property whose name is in the list the class declares
  for that group, and both are out of the grid otherwise.
\<close>

theorem edit_shows_exactly_the_declared:
  assumes "PropertiesEditor_init env h = Inr w0" and "w = run env ops w0"
    and "CLASS_MAP env (classname wd) = Some cd"
  shows "(class_ok cd \<and> tables_ok env h (classname wd) \<longrightarrow> (\<exists>w'. edit env wd w = Ok w')) \<and>
         (\<forall>w'. edit env wd w = Ok w' \<longrightarrow>
            propbag w' = propbag w \<and> map row_identity (rows w') = map row_identity (rows w) \<and>
            (\<forall>(k, i)\<in>set (propbag w').
               i < length (rows w') \<and>
               gridded w' i = (k \<in> shown_keys env cd, k \<in> shown_keys env cd)))"
proof -
  have returns: "class_ok cd \<and> tables_ok env h (classname wd) \<longrightarrow> (\<exists>w'. edit env wd w = Ok w')"
  proof (rule impI)
    assume ok: "class_ok cd \<and> tables_ok env h (classname wd)"
    have "same_shape h (heap w)"
      using same_shape_run[of w0 env ops] heap_init[OF assms(1)] assms(2) by simp
    with ok have "tables_ok env (heap w) (classname wd)" by (blast intro: tables_ok_same_shape)
    with ok show "\<exists>w'. edit env wd w = Ok w'"
      by (intro edit_total[OF reachable_panel_inv[OF assms(1,2)] assms(3)]) simp_all
  qed
  have visible: "\<forall>w'. edit env wd w = Ok w' \<longrightarrow>
            propbag w' = propbag w \<and> map row_identity (rows w') = map row_identity (rows w) \<and>
            (\<forall>(k, i)\<in>set (propbag w').
               i < length (rows w') \<and>
               gridded w' i = (k \<in> shown_keys env cd, k \<in> shown_keys env cd))"
  proof (intro allI impI)
    fix w' assume e: "edit env wd w = Ok w'"
    show "propbag w' = propbag w \<and> map row_identity (rows w') = map row_identity (rows w) \<and>
            (\<forall>(k, i)\<in>set (propbag w').
               i < length (rows w') \<and>
               gridded w' i = (k \<in> shown_keys env cd, k \<in> shown_keys env cd))"
      by (rule edit_Ok_gridded[OF assms e])
  qed
  from returns visible show ?thesis by (rule conjI)
qed

theorem edit_shows_exactly_the_declared_witness:
  "PropertiesEditor_init ex_env ex_heap = Inr ex_w0 \<and>
   ex_w1 = run ex_env [Edit ex_label] ex_w0 \<and>
   CLASS_MAP ex_env (classname ex_frame) =
     Some (map_of [(''OPTIONS_STANDARD'', []), (''OPTIONS_SPECIFIC'', [''width'']), (''OPTIONS_CUSTOM'', [])]) \<and>
   (case edit ex_env ex_frame ex_w1 of Ok w' \<Rightarrow> True | Raised e w' \<Rightarrow> False) \<and>
   edit ex_env ex_frame ex_w1 = Ok ex_w3 \<and>
   propbag ex_w3 = [(''00class'', 0), (''00id'', 1), (''01text'', 2), (''02width'', 3)] \<and>
   gridded ex_w1 2 = (True, True) \<and> gridded ex_w1 3 = (False, False) \<and>
   gridded ex_w3 0 = (True, True) \<and> gridded ex_w3 1 = (True, True) \<and>
   gridded ex_w3 2 = (False, False) \<and> gridded ex_w3 3 = (True, True)"
proof -
  define cd where "cd = map_of [(''OPTIONS_STANDARD'', []), (''OPTIONS_SPECIFIC'', [''width'']),
                                (''OPTIONS_CUSTOM'', [] :: string list)]"
  have r: "ex_w1 = run ex_env [Edit ex_label] ex_w0" by (simp add: run_def ex_edit_label)
  have c: "CLASS_MAP ex_env (classname ex_frame) = Some cd"
    by (simp add: cd_def ex_env_def ex_frame_def)
  have co: "class_ok cd" by (simp add: class_ok_def cd_def)
  have tb: "tables_ok ex_env ex_heap (classname ex_frame)"
    by (simp add: tables_ok_def descr_ok_def groups_def deref_def ex_env_def ex_heap_def ex_frame_def)
  note T = edit_shows_exactly_the_declared[OF ex_init r c]
  from T co tb have "\<exists>w'. edit ex_env ex_frame ex_w1 = Ok w'" by blast
  then obtain w' where "edit ex_env ex_frame ex_w1 = Ok w'" by (elim exE)
  then have ret: "(case edit ex_env ex_frame ex_w1 of Ok w' \<Rightarrow> True | Raised e w' \<Rightarrow> False)"
    by simp
  have pb: "propbag ex_w3 = [(''00class'', 0), (''00id'', 1), (''01text'', 2), (''02width'', 3)]"
    by (simp add: ex_w3_def)
  from T ex_edit_frame have "\<forall>(k, i)\<in>set (propbag ex_w3).
      gridded ex_w3 i = (k \<in> shown_keys ex_env cd, k \<in> shown_keys ex_env cd)"
    by fast
  then have g3: "gridded ex_w3 0 = (True, True) \<and> gridded ex_w3 1 = (True, True) \<and>
   gridded ex_w3 2 = (False, False) \<and> gridded ex_w3 3 = (True, True)"
    unfolding pb by (simp add: shown_keys_def declared_def cd_def ex_env_def image_iff)
  have g1: "gridded ex_w1 2 = (True, True) \<and> gridded ex_w1 3 = (False, False)"
    by (simp add: gridded_def ex_w1_def)
  show ?thesis using ex_init r c ret ex_edit_frame pb g1 g3 unfolding cd_def by (intro conjI) simp_all
qed

end
